theory Spec2Isabelle
  imports Complex_Main "HOL-Library.Word" "HOL-Library.Multiset"
begin

section \<open>Data model\<close>

text \<open>
  A JavaScript string is a sequence of UTF-16 code units.  Notes and chat
  text are kept in that form, because \<^verbatim>\<open>trim\<close>, string truthiness and the regular
  expressions of the command parser are defined on code units.  Identifiers of
  users and organizations are opaque keys; only their equality is used.
\<close>

type_synonym code_unit = "16 word"
type_synonym js_string = "code_unit list"

text \<open>
  A \<^verbatim>\<open>Date\<close> is its time value: milliseconds since the epoch.  The Prisma model
  \<^verbatim>\<open>WorkingSession\<close> has the columns below; \<^verbatim>\<open>id\<close> is the primary key, filled
  by \<^verbatim>\<open>@default(cuid())\<close> with an identifier not yet in use; \<^verbatim>\<open>userId\<close> and
  \<^verbatim>\<open>organizationId\<close> refer to a user and to an organization.
\<close>

record WorkingSession =
  sessionId :: nat
  checkinAt :: int
  checkoutAt :: "int option"
  note_col :: "js_string option"
  userId :: string
  organizationId :: string

text \<open>The table \<^verbatim>\<open>workingSession\<close>: its rows in storage order.\<close>

type_synonym session_table = "WorkingSession list"

text \<open>
  The other tables of the schema, and the database: the tables in storage order.
\<close>

record User =
  u_id :: string
  u_name :: string
  u_email :: string
  slackUserId :: "string option"
  chatworkUserId :: "string option"

record Organization =
  o_id :: string
  o_name :: string
  o_slug :: string

datatype Role = OWNER | ADMIN | MEMBER

datatype MembershipStatus = ACTIVE | INVITED | SUSPENDED | LEFT

record Membership =
  m_id :: string
  m_userId :: string
  m_organizationId :: string
  m_role :: Role
  m_status :: MembershipStatus

record database =
  users :: "User list"
  organizations :: "Organization list"
  memberships :: "Membership list"
  workingSessions :: session_table

text \<open>
  The errors.  The source throws \<^verbatim>\<open>Error\<close> objects that differ in their message
  only: the message of \<^verbatim>\<open>checkin\<close> (already checked in) and that of
  \<^verbatim>\<open>checkout\<close> (not checked in).  The others are the errors of Prisma: \<^verbatim>\<open>update\<close>
  finds no row; the database rejects a write; a query is given an invalid date.
\<close>

datatype error = AlreadyCheckedIn | NotCheckedIn | RecordNotFound | DatabaseError | InvalidDate

section \<open>Strings\<close>

text \<open>
  The line terminators and the white space of ECMAScript.  \<^verbatim>\<open>\s\<close> in a regular
  expression and \<^verbatim>\<open>trim\<close> use both sets; \<^verbatim>\<open>.\<close> excludes the line terminators.
\<close>

definition is_line_terminator :: "code_unit \<Rightarrow> bool" where
  "is_line_terminator c \<longleftrightarrow> c = 0x000A \<or> c = 0x000D \<or> c = 0x2028 \<or> c = 0x2029"

definition is_white_space :: "code_unit \<Rightarrow> bool" where
  "is_white_space c \<longleftrightarrow>
     c = 0x0009 \<or> c = 0x000B \<or> c = 0x000C \<or> c = 0xFEFF \<or> c = 0x0020 \<or> c = 0x00A0
     \<or> c = 0x1680 \<or> (0x2000 \<le> c \<and> c \<le> 0x200A) \<or> c = 0x202F \<or> c = 0x205F \<or> c = 0x3000"

definition is_space :: "code_unit \<Rightarrow> bool" where
  "is_space c \<longleftrightarrow> is_white_space c \<or> is_line_terminator c"

definition trim :: "js_string \<Rightarrow> js_string" where
  "trim s = rev (dropWhile is_space (rev (dropWhile is_space s)))"

text \<open>The code units of an ASCII text.\<close>

definition ascii :: "string \<Rightarrow> js_string" where
  "ascii cs = map of_char cs"

text \<open>
  The texts PostgreSQL stores: UTF-8 with no character of code 0, so a string with no
  code unit 0 and no surrogate that is not half of a pair.
\<close>

definition is_high_surrogate :: "code_unit \<Rightarrow> bool" where
  "is_high_surrogate c \<longleftrightarrow> 0xD800 \<le> c \<and> c \<le> 0xDBFF"

definition is_low_surrogate :: "code_unit \<Rightarrow> bool" where
  "is_low_surrogate c \<longleftrightarrow> 0xDC00 \<le> c \<and> c \<le> 0xDFFF"

fun well_formed :: "js_string \<Rightarrow> bool" where
  "well_formed [] = True"
| "well_formed [c] = (\<not> is_high_surrogate c \<and> \<not> is_low_surrogate c)"
| "well_formed (c # d # cs) =
     (if is_high_surrogate c then is_low_surrogate d \<and> well_formed cs
      else \<not> is_low_surrogate c \<and> well_formed (d # cs))"

definition storable_text :: "js_string \<Rightarrow> bool" where
  "storable_text s \<longleftrightarrow> 0 \<notin> set s \<and> well_formed s"

definition storable_note :: "js_string option \<Rightarrow> bool" where
  "storable_note n = (case n of None \<Rightarrow> True | Some x \<Rightarrow> storable_text x)"

section \<open>The Prisma operations used on the session table\<close>

text \<open>The key a new row gets: one above every key in the table.\<close>

definition fresh_id :: "session_table \<Rightarrow> nat" where
  "fresh_id rows = Suc (fold max (map sessionId rows) 0)"

definition ws_findFirst :: "(WorkingSession \<Rightarrow> bool) \<Rightarrow> session_table \<Rightarrow> WorkingSession option" where
  "ws_findFirst wh rows = find wh rows"

definition ws_findMany :: "(WorkingSession \<Rightarrow> bool) \<Rightarrow> session_table \<Rightarrow> WorkingSession list" where
  "ws_findMany wh rows = filter wh rows"

text \<open>
  \<^verbatim>\<open>create\<close>: one row is added, with a generated key and no checkout time.  The
  database rejects the row, and Prisma throws with nothing stored, when the user or
  the organization it refers to does not exist (the relations of the schema) or the
  note is a text it cannot store.
\<close>

definition accepts_session :: "string \<Rightarrow> string \<Rightarrow> js_string option \<Rightarrow> database \<Rightarrow> bool" where
  "accepts_session u org n db \<longleftrightarrow>
     list_ex (\<lambda>x. u_id x = u) (users db) \<and> list_ex (\<lambda>x. o_id x = org) (organizations db)
     \<and> storable_note n"

definition ws_create ::
  "string \<Rightarrow> string \<Rightarrow> int \<Rightarrow> js_string option \<Rightarrow> database
    \<Rightarrow> (error + WorkingSession) \<times> database" where
  "ws_create u org t n db =
     (if accepts_session u org n db
      then (let row = \<lparr> sessionId = fresh_id (workingSessions db), checkinAt = t, checkoutAt = None,
                         note_col = n, userId = u, organizationId = org \<rparr>
            in (Inr row, db\<lparr> workingSessions := workingSessions db @ [row] \<rparr>))
      else (Inl DatabaseError, db))"

text \<open>
  \<^verbatim>\<open>update({where: {id}, data})\<close>: the row with that key gets the new columns
  and is returned; Prisma throws when there is none.  The key is unique in a table
  (\<open>unique_ids\<close> below), so one row changes.  \<open>newText\<close> is the text among the new
  columns that comes from the caller, if there is one: the database rejects the update
  when it cannot store that text.  A text taken from the table is one it has stored.
\<close>

definition ws_update ::
  "nat \<Rightarrow> (WorkingSession \<Rightarrow> WorkingSession) \<Rightarrow> js_string option \<Rightarrow> database
    \<Rightarrow> (error + WorkingSession) \<times> database" where
  "ws_update i f newText db =
     (case find (\<lambda>s. sessionId s = i) (workingSessions db) of
        None \<Rightarrow> (Inl RecordNotFound, db)
      | Some s \<Rightarrow>
          if storable_note newText
          then (Inr (f s),
                db\<lparr> workingSessions := map (\<lambda>t. if sessionId t = i then f t else t) (workingSessions db) \<rparr>)
          else (Inl DatabaseError, db))"

section \<open>Dates\<close>

text \<open>
  The \<^verbatim>\<open>Date\<close> constructor with year, month, day, hours, minutes and seconds, after
  ECMAScript (MakeDay, MakeTime, MakeDate): the fields are read as local time, a month
  or a day out of its range carries over, a year from 0 to 99 counts from 1900, and
  the milliseconds are 0.  \<open>tza\<close> is the offset of local time from UTC, in
  milliseconds, at a local time value.  Years, months and days are integers.
\<close>

definition msPerDay :: int where
  "msPerDay = 86400000"

definition DayFromYear :: "int \<Rightarrow> int" where
  "DayFromYear y = 365 * (y - 1970) + (y - 1969) div 4 - (y - 1901) div 100 + (y - 1601) div 400"

definition InLeapYear :: "int \<Rightarrow> bool" where
  "InLeapYear y \<longleftrightarrow> (y mod 4 = 0 \<and> y mod 100 \<noteq> 0) \<or> y mod 400 = 0"

definition DaysBeforeMonth :: "int \<Rightarrow> int \<Rightarrow> int" where
  "DaysBeforeMonth y mn =
     [0, 31, 59, 90, 120, 151, 181, 212, 243, 273, 304, 334] ! nat mn
     + (if 2 \<le> mn \<and> InLeapYear y then 1 else 0)"

definition MakeDay :: "int \<Rightarrow> int \<Rightarrow> int \<Rightarrow> int" where
  "MakeDay year month date =
     (let ym = year + month div 12; mn = month mod 12
      in DayFromYear ym + DaysBeforeMonth ym mn + date - 1)"

definition MakeTime :: "int \<Rightarrow> int \<Rightarrow> int \<Rightarrow> int \<Rightarrow> int" where
  "MakeTime hour minute sec ms = hour * 3600000 + minute * 60000 + sec * 1000 + ms"

definition MakeDate :: "int \<Rightarrow> int \<Rightarrow> int" where
  "MakeDate day time = day * msPerDay + time"

text \<open>
  \<^verbatim>\<open>TimeClip\<close>: a time value more than 8.64e15 ms from the epoch is no date (the
  \<^verbatim>\<open>Date\<close> is invalid).
\<close>

definition TimeClip :: "int \<Rightarrow> int option" where
  "TimeClip t = (if \<bar>t\<bar> \<le> 8640000000000000 then Some t else None)"

definition new_Date :: "(int \<Rightarrow> int) \<Rightarrow> int \<Rightarrow> int \<Rightarrow> int \<Rightarrow> int \<Rightarrow> int \<Rightarrow> int \<Rightarrow> int option" where
  "new_Date tza year month date hours minutes seconds =
     (let yr = (if 0 \<le> year \<and> year \<le> 99 then 1900 + year else year);
          t = MakeDate (MakeDay yr month date) (MakeTime hours minutes seconds 0)
      in TimeClip (t - tza t))"

section \<open>WorkingSessionService\<close>

text \<open>
  The service works on the database of its Prisma client.  The queries read the
  session table only and are functions of that table.
\<close>

definition getActiveSession :: "string \<Rightarrow> string \<Rightarrow> session_table \<Rightarrow> WorkingSession option" where
  "getActiveSession u org rows =
     ws_findFirst (\<lambda>s. userId s = u \<and> organizationId s = org \<and> checkoutAt s = None) rows"

text \<open>
  \<^verbatim>\<open>checkin(userId, organizationId, note?)\<close>; \<open>now\<close> is what \<^verbatim>\<open>new Date()\<close>
  reads.  The result is the returned session or the thrown error, with the database
  after the call.
\<close>

definition checkin ::
  "string \<Rightarrow> string \<Rightarrow> js_string option \<Rightarrow> int \<Rightarrow> database
    \<Rightarrow> (error + WorkingSession) \<times> database" where
  "checkin u org n now db =
     (case getActiveSession u org (workingSessions db) of
        Some activeSession \<Rightarrow> (Inl AlreadyCheckedIn, db)
      | None \<Rightarrow> ws_create u org now n db)"

text \<open>
  \<^verbatim>\<open>note || activeSession.note\<close>: the left operand is taken when it is truthy,
  that is a string that is not empty.
\<close>

definition note_or :: "js_string option \<Rightarrow> js_string option \<Rightarrow> js_string option" where
  "note_or n prior = (case n of None \<Rightarrow> prior | Some x \<Rightarrow> if x = [] then prior else Some x)"

text \<open>A string in a condition: true when it is there and not empty.\<close>

definition truthy :: "js_string option \<Rightarrow> js_string option" where
  "truthy n = (case n of None \<Rightarrow> None | Some x \<Rightarrow> if x = [] then None else Some x)"

text \<open>
  \<^verbatim>\<open>checkout(userId, organizationId, note?)\<close>.  The note of the update is the new
  one when it is truthy, and then it is a text from the caller; otherwise it is the
  note the session has.
\<close>

definition checkout ::
  "string \<Rightarrow> string \<Rightarrow> js_string option \<Rightarrow> int \<Rightarrow> database
    \<Rightarrow> (error + WorkingSession) \<times> database" where
  "checkout u org n now db =
     (case getActiveSession u org (workingSessions db) of
        None \<Rightarrow> (Inl NotCheckedIn, db)
      | Some activeSession \<Rightarrow>
          ws_update (sessionId activeSession)
            (\<lambda>s. s\<lparr> checkoutAt := Some now, note_col := note_or n (note_col activeSession) \<rparr>)
            (truthy n) db)"

definition getAllActiveSessions :: "string \<Rightarrow> session_table \<Rightarrow> WorkingSession list" where
  "getAllActiveSessions org rows =
     ws_findMany (\<lambda>s. organizationId s = org \<and> checkoutAt s = None) rows"

text \<open>
  \<^verbatim>\<open>orderBy: {checkinAt: 'asc'}\<close>: the selected rows sorted by start time (rows with
  equal start times stay in storage order).
\<close>

definition getSessionsByDateRange ::
  "string \<Rightarrow> string \<Rightarrow> int \<Rightarrow> int \<Rightarrow> session_table \<Rightarrow> WorkingSession list" where
  "getSessionsByDateRange u org startDate endDate rows =
     sort_key checkinAt
       (ws_findMany (\<lambda>s. userId s = u \<and> organizationId s = org
                        \<and> startDate \<le> checkinAt s \<and> checkinAt s \<le> endDate) rows)"

text \<open>
  \<^verbatim>\<open>getMonthlyReport(userId, organizationId, year, month)\<close>.  The total is a
  JavaScript number, computed in floating point.  The numbers are a parameter here:
  the number 0, the addition \<^verbatim>\<open>+=\<close> and the hours
  \<^verbatim>\<open>duration / (1000 * 60 * 60)\<close> of a difference of two time values.  Prisma throws
  when a bound of the range is an invalid date.
\<close>

record 'n numbers =
  num_zero :: 'n
  num_add :: "'n \<Rightarrow> 'n \<Rightarrow> 'n"
  num_hours :: "int \<Rightarrow> 'n"

record 'n MonthlyReport =
  totalWorkingHours :: 'n
  sessions :: "WorkingSession list"

definition add_hours :: "'n numbers \<Rightarrow> 'n \<Rightarrow> WorkingSession \<Rightarrow> 'n" where
  "add_hours num acc session =
     (case checkoutAt session of
        Some out \<Rightarrow> num_add num acc (num_hours num (out - checkinAt session))
      | None \<Rightarrow> acc)"

definition getMonthlyReport ::
  "'n numbers \<Rightarrow> (int \<Rightarrow> int) \<Rightarrow> string \<Rightarrow> string \<Rightarrow> int \<Rightarrow> int \<Rightarrow> session_table
    \<Rightarrow> error + 'n MonthlyReport" where
  "getMonthlyReport num tza u org year month rows =
     (case (new_Date tza year (month - 1) 1 0 0 0, new_Date tza year month 0 23 59 59) of
        (Some startDate, Some endDate) \<Rightarrow>
          (let found = getSessionsByDateRange u org startDate endDate rows
           in Inr \<lparr> totalWorkingHours = foldl (add_hours num) (num_zero num) found,
                    sessions = found \<rparr>)
      | _ \<Rightarrow> Inl InvalidDate)"

section \<open>The open-session invariant\<close>

definition is_open :: "string \<Rightarrow> string \<Rightarrow> WorkingSession \<Rightarrow> bool" where
  "is_open u org s \<longleftrightarrow> userId s = u \<and> organizationId s = org \<and> checkoutAt s = None"

text \<open>At most one row with no checkout time for every (user, organization).\<close>

definition open_inv :: "session_table \<Rightarrow> bool" where
  "open_inv rows \<longleftrightarrow>
     (\<forall>s \<in> set rows. length (filter (is_open (userId s) (organizationId s)) rows) \<le> 1)"

text \<open>The primary key: no two rows share an identifier.\<close>

definition unique_ids :: "session_table \<Rightarrow> bool" where
  "unique_ids rows \<longleftrightarrow> distinct (map sessionId rows)"

text \<open>
  The closed form of a session: what \<^verbatim>\<open>checkout\<close> writes into the open row.
\<close>

definition close_session :: "js_string option \<Rightarrow> int \<Rightarrow> WorkingSession \<Rightarrow> WorkingSession" where
  "close_session n now a =
     a\<lparr> checkoutAt := Some now,
        note_col := (if n = None \<or> n = Some [] then note_col a else n) \<rparr>"

text \<open>The row a check-in adds.\<close>

definition new_session :: "string \<Rightarrow> string \<Rightarrow> js_string option \<Rightarrow> int \<Rightarrow> database \<Rightarrow> WorkingSession" where
  "new_session u org n now db =
     \<lparr> sessionId = fresh_id (workingSessions db), checkinAt = now, checkoutAt = None,
       note_col = n, userId = u, organizationId = org \<rparr>"

section \<open>Sequences of engine operations\<close>

text \<open>
  Serialized execution: the operations run one after the other, each on the
  database the previous one left.  A call that throws leaves the database it
  returns; the four queries write nothing.
\<close>

datatype engine_op =
    Checkin string string "js_string option" int
  | Checkout string string "js_string option" int
  | ActiveSession string string
  | AllActiveSessions string
  | SessionsByDateRange string string int int
  | MonthlyReportOf string string int int

fun exec :: "engine_op \<Rightarrow> database \<Rightarrow> database" where
  "exec (Checkin u org n now) db = snd (checkin u org n now db)"
| "exec (Checkout u org n now) db = snd (checkout u org n now db)"
| "exec (ActiveSession u org) db = db"
| "exec (AllActiveSessions org) db = db"
| "exec (SessionsByDateRange u org startDate endDate) db = db"
| "exec (MonthlyReportOf u org year month) db = db"

definition run :: "engine_op list \<Rightarrow> database \<Rightarrow> database" where
  "run ops db = fold exec ops db"

text \<open>
  The clock: \<open>clock_ok t ops\<close> says that the readings of \<^verbatim>\<open>new Date()\<close> in the
  operations \<open>ops\<close>, run after time \<open>t\<close>, never go back; \<open>clock_inv t rows\<close> that
  no session of the table starts after \<open>t\<close> or ends before it starts.
\<close>

definition clock_inv :: "int \<Rightarrow> session_table \<Rightarrow> bool" where
  "clock_inv t rows \<longleftrightarrow>
     (\<forall>s \<in> set rows. checkinAt s \<le> t
        \<and> (case checkoutAt s of None \<Rightarrow> True | Some out \<Rightarrow> checkinAt s \<le> out))"

fun op_time :: "int \<Rightarrow> engine_op \<Rightarrow> int" where
  "op_time t (Checkin u org n now) = now"
| "op_time t (Checkout u org n now) = now"
| "op_time t _ = t"

fun clock_ok :: "int \<Rightarrow> engine_op list \<Rightarrow> bool" where
  "clock_ok t [] = True"
| "clock_ok t (op # ops) = (t \<le> op_time t op \<and> clock_ok (op_time t op) ops)"

section \<open>Regular expressions\<close>

text \<open>
  The part of the ECMAScript pattern language that \<^verbatim>\<open>parseCommand\<close> uses, with
  its backtracking semantics.  \<open>matches r s i cap\<close> lists, in the order the
  matcher tries them, the end positions and captures with which \<open>r\<close> matches
  \<open>s\<close> from position \<open>i\<close>.  A greedy quantifier tries one more iteration
  first; an iteration starts with the captures of its groups cleared, and one that
  matches the empty string is rejected.
\<close>

datatype regex =
    Empty
  | Chr code_unit
  | Space
  | Dot
  | LineStart
  | LineEnd
  | Seq regex regex
  | Star regex
  | Opt regex
  | Group nat regex

type_synonym captures = "nat \<Rightarrow> js_string option"

fun groups :: "regex \<Rightarrow> nat set" where
  "groups (Seq r1 r2) = groups r1 \<union> groups r2"
| "groups (Star r) = groups r"
| "groups (Opt r) = groups r"
| "groups (Group n r) = insert n (groups r)"
| "groups _ = {}"

definition clear :: "regex \<Rightarrow> captures \<Rightarrow> captures" where
  "clear r cap = (\<lambda>n. if n \<in> groups r then None else cap n)"

text \<open>
  The terms of a pattern are nested to the right; the order of the results is that
  of the left-nested grammar.  In the star, the test \<open>i < j \<and> j \<le> length s\<close> is
  ECMAScript's \<open>j \<noteq> i\<close> (\<open>star_filter_moved\<close> below); written so, the recursion
  visibly ends.
\<close>

function matches :: "regex \<Rightarrow> js_string \<Rightarrow> nat \<Rightarrow> captures \<Rightarrow> (nat \<times> captures) list" where
  "matches Empty s i cap = [(i, cap)]"
| "matches (Chr c) s i cap = (if i < length s \<and> s ! i = c then [(Suc i, cap)] else [])"
| "matches Space s i cap = (if i < length s \<and> is_space (s ! i) then [(Suc i, cap)] else [])"
| "matches Dot s i cap = (if i < length s \<and> \<not> is_line_terminator (s ! i) then [(Suc i, cap)] else [])"
| "matches LineStart s i cap = (if i = 0 then [(i, cap)] else [])"
| "matches LineEnd s i cap = (if i = length s then [(i, cap)] else [])"
| "matches (Seq r1 r2) s i cap = concat (map (\<lambda>(j, c). matches r2 s j c) (matches r1 s i cap))"
| "matches (Group n r) s i cap =
     map (\<lambda>(j, c). (j, c(n \<mapsto> take (j - i) (drop i s)))) (matches r s i cap)"
| "matches (Opt r) s i cap =
     filter (\<lambda>(j, c). j \<noteq> i) (matches r s i (clear r cap)) @ [(i, cap)]"
| "matches (Star r) s i cap =
     concat (map (\<lambda>(j, c). matches (Star r) s j c)
               (filter (\<lambda>(j, c). i < j \<and> j \<le> length s) (matches r s i (clear r cap))))
     @ [(i, cap)]"
  by pat_completeness auto
termination
  by (relation "measures [\<lambda>(r, s, i, cap). size r, \<lambda>(r, s, i, cap). length s - i]") auto

declare matches.simps [simp del]

lemmas matches_basic = matches.simps(1-9)

function regexp_exec :: "regex \<Rightarrow> js_string \<Rightarrow> nat \<Rightarrow> (nat \<times> nat \<times> captures) option" where
  "regexp_exec r s i =
     (if length s < i then None
      else (case matches r s i (\<lambda>n. None) of
              (j, c) # rest \<Rightarrow> Some (i, j, c)
            | [] \<Rightarrow> regexp_exec r s (Suc i)))"
  by pat_completeness auto
termination
  by (relation "measure (\<lambda>(r, s, i). Suc (length s) - i)") auto

declare regexp_exec.simps [simp del]

definition js_match :: "regex \<Rightarrow> js_string \<Rightarrow> (nat \<Rightarrow> js_string option) option" where
  "js_match r s =
     (case regexp_exec r s 0 of
        None \<Rightarrow> None
      | Some (i, j, c) \<Rightarrow> Some (\<lambda>n. if n = 0 then Some (take (j - i) (drop i s)) else c n))"

section \<open>ChatworkWebhookHandler.parseCommand\<close>

text \<open>
  A pattern is the sequence of its terms.  The four patterns of the source are
  \<^verbatim>\<open>/^\/checkin\s*(.*)?$/\<close>, \<^verbatim>\<open>/^\/checkout\s*(.*)?$/\<close>, \<^verbatim>\<open>/^\/status$/\<close> and
  \<^verbatim>\<open>/^\/vacation\s*(.*)?$/\<close>; the first that matches gives the command, with
  \<^verbatim>\<open>match[1]?.trim()\<close> as parameter.
\<close>

definition seq :: "regex list \<Rightarrow> regex" where
  "seq rs = foldr Seq rs Empty"

definition chars :: "string \<Rightarrow> regex list" where
  "chars cs = map (\<lambda>c. Chr (of_char c)) cs"

definition commands :: "(string \<times> regex) list" where
  "commands =
     [(''checkin'', seq ([LineStart] @ chars ''/checkin'' @ [Star Space, Opt (Group 1 (Star Dot)), LineEnd])),
      (''checkout'', seq ([LineStart] @ chars ''/checkout'' @ [Star Space, Opt (Group 1 (Star Dot)), LineEnd])),
      (''status'', seq ([LineStart] @ chars ''/status'' @ [LineEnd])),
      (''vacation'', seq ([LineStart] @ chars ''/vacation'' @ [Star Space, Opt (Group 1 (Star Dot)), LineEnd]))]"

fun first_command :: "(string \<times> regex) list \<Rightarrow> js_string \<Rightarrow> (string \<times> js_string option) option" where
  "first_command [] body = None"
| "first_command ((name, rx) # cmds) body =
     (case js_match rx body of
        Some m \<Rightarrow> Some (name, map_option trim (m 1))
      | None \<Rightarrow> first_command cmds body)"

definition parseCommand :: "js_string \<Rightarrow> (string \<times> js_string option) option" where
  "parseCommand body = first_command commands body"

text \<open>
  The same function written without regular expressions (\<open>parseCommand_direct_eq\<close>
  below): a command name at the start of the body; for the three patterns with a
  group, the rest after its leading white space, which matches when it holds no line
  terminator, trimmed, and absent when empty.
\<close>

definition starts_with :: "js_string \<Rightarrow> js_string \<Rightarrow> bool" where
  "starts_with cs s \<longleftrightarrow> take (length cs) s = cs"

definition command_with_param :: "string \<Rightarrow> js_string \<Rightarrow> (string \<times> js_string option) option" where
  "command_with_param name rest =
     (let p = dropWhile is_space rest
      in if list_ex is_line_terminator p then None
         else Some (name, if p = [] then None else Some (trim p)))"

definition parseCommand_direct :: "js_string \<Rightarrow> (string \<times> js_string option) option" where
  "parseCommand_direct body =
     (if starts_with (ascii ''/checkin'') body then command_with_param ''checkin'' (drop 8 body)
      else if starts_with (ascii ''/checkout'') body then command_with_param ''checkout'' (drop 9 body)
      else if body = ascii ''/status'' then Some (''status'', None)
      else if starts_with (ascii ''/vacation'') body then command_with_param ''vacation'' (drop 9 body)
      else None)"

text \<open>
  The text after a command name is separated from it when it is empty or starts with
  white space; it is on one line when it holds no line terminator.
\<close>

definition separated :: "js_string \<Rightarrow> bool" where
  "separated rest = (case rest of [] \<Rightarrow> True | c # cs \<Rightarrow> is_space c)"

definition one_line :: "js_string \<Rightarrow> bool" where
  "one_line s \<longleftrightarrow> \<not> list_ex is_line_terminator s"

text \<open>The parameter a text gives: the text trimmed, and none when that is empty.\<close>

definition param_of :: "js_string \<Rightarrow> js_string option" where
  "param_of rest = (if trim rest = [] then None else Some (trim rest))"

section \<open>UserService and OrganizationService\<close>

definition findBySlackUserId :: "string \<Rightarrow> database \<Rightarrow> User option" where
  "findBySlackUserId sid db = find (\<lambda>u. slackUserId u = Some sid) (users db)"

definition findByChatworkUserId :: "string \<Rightarrow> database \<Rightarrow> User option" where
  "findByChatworkUserId cid db = find (\<lambda>u. chatworkUserId u = Some cid) (users db)"

text \<open>
  \<^verbatim>\<open>getUserOrganizations\<close>: the ACTIVE memberships of the user in storage order, each
  replaced by the organization it refers to (\<^verbatim>\<open>include: {organization: true}\<close>).
\<close>

definition getUserOrganizations :: "string \<Rightarrow> database \<Rightarrow> Organization list" where
  "getUserOrganizations uid db =
     List.map_filter (\<lambda>m. find (\<lambda>org. o_id org = m_organizationId m) (organizations db))
       (filter (\<lambda>m. m_userId m = uid \<and> m_status m = ACTIVE) (memberships db))"

section \<open>Replies\<close>

text \<open>
  One constructor for every message template of the adapters, with the values the
  template interpolates.  The hours of a check-out are absent where the source prints
  its calculation-error text.
\<close>

datatype reply =
    RegistrationRequired
  | NoOrganization
  | CheckinDone string "js_string option"
  | CheckoutDone string "js_string option" "real option"
  | NobodyWorking
  | Roster "(string \<times> int \<times> js_string option) list"
  | ErrorReply error
  | VacationComingSoon

text \<open>
  \<^verbatim>\<open>session.checkoutAt && (checkoutAt - checkinAt) / (1000 * 60 * 60)\<close>, then tested
  for truthiness: no end, or a duration of zero, gives no hours.
\<close>

definition hours_of :: "WorkingSession \<Rightarrow> real option" where
  "hours_of session =
     (case checkoutAt session of
        None \<Rightarrow> None
      | Some out \<Rightarrow>
          if out - checkinAt session = 0 then None
          else Some (real_of_int (out - checkinAt session) / (1000 * 60 * 60)))"

text \<open>
  The roster of the status command: every open session of the organization with the
  name of its user (\<^verbatim>\<open>include: {user: true}\<close>), its start and its note.
\<close>

definition roster :: "string \<Rightarrow> database \<Rightarrow> (string \<times> int \<times> js_string option) list" where
  "roster org db =
     List.map_filter
       (\<lambda>s. map_option (\<lambda>u. (u_name u, checkinAt s, truthy (note_col s)))
               (find (\<lambda>u. u_id u = userId s) (users db)))
       (getAllActiveSessions org (workingSessions db))"

definition status_reply :: "string \<Rightarrow> database \<Rightarrow> reply" where
  "status_reply org db =
     (if getAllActiveSessions org (workingSessions db) = [] then NobodyWorking
      else Roster (roster org db))"

section \<open>SlackCommandHandler\<close>

text \<open>
  Each definition is the callback its \<^verbatim>\<open>setup\<close> method registers: it takes the slash
  command, the clock reading and the database, and gives what it sends to Slack, in
  order, with the database after the call.  \<^verbatim>\<open>ack()\<close> comes before the
  \<^verbatim>\<open>try\<close> block; an error thrown inside is caught and answered with its message.
\<close>

record SlashCommand =
  user_id :: string
  user_name :: string
  command_text :: js_string

datatype slack_action = Ack | Respond reply

text \<open>\<^verbatim>\<open>command.text ? command.text.trim() : undefined\<close>\<close>

definition slack_note :: "SlashCommand \<Rightarrow> js_string option" where
  "slack_note command = (if command_text command = [] then None else Some (trim (command_text command)))"

definition setupCheckinHandler :: "SlashCommand \<Rightarrow> int \<Rightarrow> database \<Rightarrow> slack_action list \<times> database" where
  "setupCheckinHandler command now db =
     (case findBySlackUserId (user_id command) db of
        None \<Rightarrow> ([Ack, Respond RegistrationRequired], db)
      | Some user \<Rightarrow>
          (case getUserOrganizations (u_id user) db of
             [] \<Rightarrow> ([Ack, Respond NoOrganization], db)
           | organization # others \<Rightarrow>
               (let n = slack_note command in
                case checkin (u_id user) (o_id organization) n now db of
                  (Inr session, db') \<Rightarrow>
                    ([Ack, Respond (CheckinDone (user_name command) (truthy n))], db')
                | (Inl e, db') \<Rightarrow> ([Ack, Respond (ErrorReply e)], db'))))"

definition setupCheckoutHandler :: "SlashCommand \<Rightarrow> int \<Rightarrow> database \<Rightarrow> slack_action list \<times> database" where
  "setupCheckoutHandler command now db =
     (case findBySlackUserId (user_id command) db of
        None \<Rightarrow> ([Ack, Respond RegistrationRequired], db)
      | Some user \<Rightarrow>
          (case getUserOrganizations (u_id user) db of
             [] \<Rightarrow> ([Ack, Respond NoOrganization], db)
           | organization # others \<Rightarrow>
               (let n = slack_note command in
                case checkout (u_id user) (o_id organization) n now db of
                  (Inr session, db') \<Rightarrow>
                    ([Ack, Respond (CheckoutDone (user_name command) (truthy n) (hours_of session))],
                     db')
                | (Inl e, db') \<Rightarrow> ([Ack, Respond (ErrorReply e)], db'))))"

definition setupStatusHandler :: "SlashCommand \<Rightarrow> database \<Rightarrow> slack_action list \<times> database" where
  "setupStatusHandler command db =
     (case findBySlackUserId (user_id command) db of
        None \<Rightarrow> ([Ack, Respond RegistrationRequired], db)
      | Some user \<Rightarrow>
          (case getUserOrganizations (u_id user) db of
             [] \<Rightarrow> ([Ack, Respond NoOrganization], db)
           | organization # others \<Rightarrow> ([Ack, Respond (status_reply (o_id organization) db)], db)))"

definition setupVacationHandler :: "SlashCommand \<Rightarrow> database \<Rightarrow> slack_action list \<times> database" where
  "setupVacationHandler command db = ([Ack, Respond VacationComingSoon], db)"

section \<open>ChatworkWebhookHandler\<close>

text \<open>
  The command handlers return the text of the reply; an error thrown inside is caught
  and returned as its message.
\<close>

definition handleCheckinCommand :: "string \<Rightarrow> js_string option \<Rightarrow> int \<Rightarrow> database \<Rightarrow> reply \<times> database" where
  "handleCheckinCommand chatworkId n now db =
     (case findByChatworkUserId chatworkId db of
        None \<Rightarrow> (RegistrationRequired, db)
      | Some user \<Rightarrow>
          (case getUserOrganizations (u_id user) db of
             [] \<Rightarrow> (NoOrganization, db)
           | organization # others \<Rightarrow>
               (case checkin (u_id user) (o_id organization) n now db of
                  (Inr session, db') \<Rightarrow> (CheckinDone (u_name user) (truthy n), db')
                | (Inl e, db') \<Rightarrow> (ErrorReply e, db'))))"

definition handleCheckoutCommand :: "string \<Rightarrow> js_string option \<Rightarrow> int \<Rightarrow> database \<Rightarrow> reply \<times> database" where
  "handleCheckoutCommand chatworkId n now db =
     (case findByChatworkUserId chatworkId db of
        None \<Rightarrow> (RegistrationRequired, db)
      | Some user \<Rightarrow>
          (case getUserOrganizations (u_id user) db of
             [] \<Rightarrow> (NoOrganization, db)
           | organization # others \<Rightarrow>
               (case checkout (u_id user) (o_id organization) n now db of
                  (Inr session, db') \<Rightarrow>
                    (CheckoutDone (u_name user) (truthy n) (hours_of session), db')
                | (Inl e, db') \<Rightarrow> (ErrorReply e, db'))))"

definition handleStatusCommand :: "string \<Rightarrow> database \<Rightarrow> reply \<times> database" where
  "handleStatusCommand chatworkId db =
     (case findByChatworkUserId chatworkId db of
        None \<Rightarrow> (RegistrationRequired, db)
      | Some user \<Rightarrow>
          (case getUserOrganizations (u_id user) db of
             [] \<Rightarrow> (NoOrganization, db)
           | organization # others \<Rightarrow> (status_reply (o_id organization) db, db)))"

definition handleVacationCommand :: "string \<Rightarrow> js_string option \<Rightarrow> database \<Rightarrow> reply \<times> database" where
  "handleVacationCommand chatworkId params db = (VacationComingSoon, db)"

text \<open>
  \<^verbatim>\<open>handleWebhook\<close>: the request is its token header, event type, room, account and
  message body.  The result is the HTTP response (401, 200 ignored or 200 success),
  the messages \<^verbatim>\<open>sendChatworkMessage\<close> posts (it catches its own failures) and the
  database after the call.
\<close>

record WebhookRequest =
  token_header :: "string option"
  webhook_event_type :: string
  room_id :: string
  account_id :: string
  message_body :: js_string

datatype http_response = Unauthorized | Ignored | Success

record WebhookResult =
  response :: http_response
  sent :: "(string \<times> reply) list"
  db_after :: database

definition handleWebhook :: "string \<Rightarrow> WebhookRequest \<Rightarrow> int \<Rightarrow> database \<Rightarrow> WebhookResult" where
  "handleWebhook webhookToken req now db =
     (if token_header req \<noteq> Some webhookToken
      then \<lparr> response = Unauthorized, sent = [], db_after = db \<rparr>
      else if webhook_event_type req \<noteq> ''message_created''
      then \<lparr> response = Ignored, sent = [], db_after = db \<rparr>
      else (case parseCommand (message_body req) of
              None \<Rightarrow> \<lparr> response = Ignored, sent = [], db_after = db \<rparr>
            | Some (name, param) \<Rightarrow>
                (let (r, db') =
                       (if name = ''checkin''
                        then map_prod Some id (handleCheckinCommand (account_id req) param now db)
                        else if name = ''checkout''
                        then map_prod Some id (handleCheckoutCommand (account_id req) param now db)
                        else if name = ''status''
                        then map_prod Some id (handleStatusCommand (account_id req) db)
                        else if name = ''vacation''
                        then map_prod Some id (handleVacationCommand (account_id req) param db)
                        else (None, db))
                 in \<lparr> response = Success,
                      sent = (case r of None \<Rightarrow> [] | Some msg \<Rightarrow> [(room_id req, msg)]),
                      db_after = db' \<rparr>)))"

section \<open>Example data\<close>

text \<open>An open session of user U in organization O, started at 09:00 with a note.\<close>

definition w_open :: WorkingSession where
  "w_open = \<lparr> sessionId = 7, checkinAt = 32400000, checkoutAt = None,
              note_col = Some (ascii ''office''), userId = ''U'', organizationId = ''O'' \<rparr>"

text \<open>
  The time zone of the examples is UTC.  The session below starts half a second
  before the end of January 2024 and lasts one hour.
\<close>

definition utc :: "int \<Rightarrow> int" where
  "utc t = 0"

definition last_second :: WorkingSession where
  "last_second = \<lparr> sessionId = 1, checkinAt = 1706745599500, checkoutAt = Some 1706749199500,
              note_col = None, userId = ''U'', organizationId = ''O'' \<rparr>"

text \<open>
  A user with a former membership and two ACTIVE ones, checked in at the first
  of the two organizations; a Slack command and a Chatwork message from that user.
\<close>

definition ann :: User where
  "ann = \<lparr> u_id = ''U'', u_name = ''Ann'', u_email = ''ann@example.com'',
           slackUserId = Some ''S1'', chatworkUserId = Some ''C1'' \<rparr>"

definition org_O :: Organization where
  "org_O = \<lparr> o_id = ''O'', o_name = ''Office'', o_slug = ''office'' \<rparr>"

definition org_P :: Organization where
  "org_P = \<lparr> o_id = ''P'', o_name = ''Project'', o_slug = ''project'' \<rparr>"

definition org_Q :: Organization where
  "org_Q = \<lparr> o_id = ''Q'', o_name = ''Former'', o_slug = ''former'' \<rparr>"

definition demo_db :: database where
  "demo_db = \<lparr> users = [ann],
               organizations = [org_P, org_O, org_Q],
               memberships =
                 [\<lparr> m_id = ''m1'', m_userId = ''U'', m_organizationId = ''Q'', m_role = MEMBER, m_status = LEFT \<rparr>,
                  \<lparr> m_id = ''m2'', m_userId = ''U'', m_organizationId = ''O'', m_role = OWNER, m_status = ACTIVE \<rparr>,
                  \<lparr> m_id = ''m3'', m_userId = ''U'', m_organizationId = ''P'', m_role = MEMBER, m_status = ACTIVE \<rparr>],
               workingSessions = [w_open] \<rparr>"

definition slash :: "string \<Rightarrow> SlashCommand" where
  "slash t = \<lparr> user_id = ''S1'', user_name = ''ann'', command_text = ascii t \<rparr>"

definition webhook :: "string \<Rightarrow> WebhookRequest" where
  "webhook t = \<lparr> token_header = Some ''secret'', webhook_event_type = ''message_created'',
                  room_id = ''R'', account_id = ''C1'', message_body = ascii t \<rparr>"

text \<open>The example database with no session, and with the session closed at 17:30.\<close>

definition empty_db :: database where
  "empty_db = demo_db\<lparr> workingSessions := [] \<rparr>"

text \<open>A note with the code unit 0 in it.\<close>

definition nul_note :: js_string where
  "nul_note = ascii ''a'' @ [0] @ ascii ''b''"

section \<open>Properties of the attendance engine\<close>

lemma find_None_filter: "find P xs = None \<longleftrightarrow> filter P xs = []"
  by (induction xs) auto

lemma find_Some_mem: "find P xs = Some x \<Longrightarrow> x \<in> set xs \<and> P x"
  by (induction xs) (auto split: if_splits)

lemma find_app: "find P (xs @ ys) = (case find P xs of None \<Rightarrow> find P ys | Some x \<Rightarrow> Some x)"
  by (induction xs) auto

lemma getActive_None: "getActiveSession u org rows = None \<longleftrightarrow> filter (is_open u org) rows = []"
  unfolding getActiveSession_def ws_findFirst_def find_None_filter is_open_def ..

lemma getActive_Some: "getActiveSession u org rows = Some a \<Longrightarrow> a \<in> set rows \<and> is_open u org a"
  unfolding getActiveSession_def ws_findFirst_def is_open_def
  by (drule find_Some_mem) simp

lemma open_inv_alt: "open_inv rows \<longleftrightarrow> (\<forall>u org. length (filter (is_open u org) rows) \<le> 1)"
proof
  assume inv: "open_inv rows"
  show "\<forall>u org. length (filter (is_open u org) rows) \<le> 1"
  proof (intro allI)
    fix u org
    show "length (filter (is_open u org) rows) \<le> 1"
    proof (cases "filter (is_open u org) rows")
      case Nil then show ?thesis by simp
    next
      case (Cons s ss)
      then have "s \<in> set (filter (is_open u org) rows)" by simp
      then have "s \<in> set rows" "userId s = u" "organizationId s = org"
        by (auto simp: is_open_def)
      with inv show ?thesis unfolding open_inv_def by blast
    qed
  qed
next
  assume "\<forall>u org. length (filter (is_open u org) rows) \<le> 1"
  then show "open_inv rows" unfolding open_inv_def by blast
qed

text \<open>The three outcomes of a check-in, and the three of a check-out.\<close>


lemma checkin_cases:
  "checkin u org n now db =
     (if getActiveSession u org (workingSessions db) \<noteq> None then (Inl AlreadyCheckedIn, db)
      else if accepts_session u org n db
      then (Inr (new_session u org n now db),
            db\<lparr> workingSessions := workingSessions db @ [new_session u org n now db] \<rparr>)
      else (Inl DatabaseError, db))"
  by (auto simp: checkin_def ws_create_def new_session_def Let_def split: option.splits)

lemma checkout_cases:
  "checkout u org n now db =
     (case getActiveSession u org (workingSessions db) of
        None \<Rightarrow> (Inl NotCheckedIn, db)
      | Some a \<Rightarrow>
          if storable_note (truthy n)
          then (Inr (the (find (\<lambda>s. sessionId s = sessionId a) (workingSessions db))
                       \<lparr> checkoutAt := Some now, note_col := note_or n (note_col a) \<rparr>),
                db\<lparr> workingSessions :=
                      map (\<lambda>t. if sessionId t = sessionId a
                               then t\<lparr> checkoutAt := Some now, note_col := note_or n (note_col a) \<rparr>
                               else t) (workingSessions db) \<rparr>)
          else (Inl DatabaseError, db))"
proof (cases "getActiveSession u org (workingSessions db)")
  case None
  then show ?thesis by (simp add: checkout_def)
next
  case (Some a)
  then have "a \<in> set (workingSessions db)" using getActive_Some by blast
  then obtain b where "find (\<lambda>s. sessionId s = sessionId a) (workingSessions db) = Some b"
    by (cases "find (\<lambda>s. sessionId s = sessionId a) (workingSessions db)") (auto simp: find_None_iff)
  then show ?thesis using Some by (simp add: checkout_def ws_update_def)
qed

lemma storable_truthy: "storable_note (truthy n) \<longleftrightarrow> storable_note n"
  by (auto simp: storable_note_def truthy_def storable_text_def split: option.splits)

lemma checkin_open_inv:
  assumes "open_inv (workingSessions db)"
  shows "open_inv (workingSessions (snd (checkin u org n now db)))"
proof (cases "getActiveSession u org (workingSessions db) = None \<and> accepts_session u org n db")
  case False
  then show ?thesis using assms by (auto simp: checkin_cases)
next
  case True
  then have empty: "filter (is_open u org) (workingSessions db) = []" by (simp add: getActive_None)
  define row where "row = new_session u org n now db"
  have eq: "workingSessions (snd (checkin u org n now db)) = workingSessions db @ [row]"
    using True by (simp add: checkin_cases row_def)
  have "length (filter (is_open u' org') (workingSessions db @ [row])) \<le> 1" for u' org'
  proof (cases "u' = u \<and> org' = org")
    case True
    then show ?thesis using empty by simp
  next
    case False
    then have "\<not> is_open u' org' row" by (auto simp: is_open_def row_def new_session_def)
    then show ?thesis using assms by (simp add: open_inv_alt)
  qed
  then show ?thesis unfolding eq open_inv_alt by blast
qed

lemma filter_open_map_le:
  assumes "\<And>s. g s = s \<or> checkoutAt (g s) \<noteq> None"
  shows "length (filter (is_open u org) (map g rows)) \<le> length (filter (is_open u org) rows)"
proof (induction rows)
  case Nil then show ?case by simp
next
  case (Cons s rows)
  from assms[of s] show ?case
  proof
    assume "g s = s" with Cons show ?thesis by simp
  next
    assume "checkoutAt (g s) \<noteq> None"
    then have "\<not> is_open u org (g s)" by (simp add: is_open_def)
    with Cons show ?thesis by simp
  qed
qed

lemma checkout_open_inv:
  assumes "open_inv (workingSessions db)"
  shows "open_inv (workingSessions (snd (checkout u org n now db)))"
proof (cases "getActiveSession u org (workingSessions db)")
  case None
  then show ?thesis using assms by (simp add: checkout_cases)
next
  case (Some a)
  define g :: "WorkingSession \<Rightarrow> WorkingSession" where "g = (\<lambda>t. if sessionId t = sessionId a
      then t\<lparr> checkoutAt := Some now, note_col := note_or n (note_col a) \<rparr> else t)"
  have g: "g s = s \<or> checkoutAt (g s) \<noteq> None" for s by (simp add: g_def)
  have "workingSessions (snd (checkout u org n now db)) = workingSessions db
      \<or> workingSessions (snd (checkout u org n now db)) = map g (workingSessions db)"
    using Some by (simp add: checkout_cases g_def)
  then show ?thesis
  proof
    assume "workingSessions (snd (checkout u org n now db)) = workingSessions db"
    with assms show ?thesis by simp
  next
    assume eq: "workingSessions (snd (checkout u org n now db)) = map g (workingSessions db)"
    have "length (filter (is_open u' org') (map g (workingSessions db))) \<le> 1" for u' org'
      using filter_open_map_le[of g u' org' "workingSessions db", OF g] assms
      by (meson le_trans open_inv_alt)
    then show ?thesis unfolding eq open_inv_alt by blast
  qed
qed

text \<open>
  Claim C1.  Under serialized execution, every sequence of engine operations
  that starts in a database with at most one open session for every (user,
  organization) ends in such a database.
\<close>

theorem open_inv_run:
  "open_inv (workingSessions db) \<Longrightarrow> open_inv (workingSessions (run ops db))"
  unfolding run_def
proof (induction ops arbitrary: db)
  case Nil then show ?case by simp
next
  case (Cons op ops)
  have "open_inv (workingSessions (exec op db))"
    using Cons.prems by (cases op) (simp_all add: checkin_open_inv checkout_open_inv)
  then show ?case using Cons.IH by simp
qed

lemma fold_max_ge: "(m::nat) \<le> fold max xs m"
proof (induction xs arbitrary: m)
  case Nil then show ?case by simp
next
  case (Cons a xs)
  have "m \<le> max a m" by simp
  also have "\<dots> \<le> fold max xs (max a m)" by (rule Cons.IH)
  finally show ?case by simp
qed

lemma fold_max_mem: "x \<in> set xs \<Longrightarrow> (x::nat) \<le> fold max xs m"
proof (induction xs arbitrary: m)
  case Nil then show ?case by simp
next
  case (Cons a xs)
  show ?case
  proof (cases "x = a")
    case True
    have "a \<le> max a m" by simp
    also have "\<dots> \<le> fold max xs (max a m)" by (rule fold_max_ge)
    finally show ?thesis using True by simp
  next
    case False
    then show ?thesis using Cons by simp
  qed
qed

lemma fresh_id_bound: "s \<in> set rows \<Longrightarrow> sessionId s < fresh_id rows"
  unfolding fresh_id_def using fold_max_mem[of "sessionId s" "map sessionId rows" 0]
  by (simp add: le_imp_less_Suc)

text \<open>
  Claim C2, as amended.  \<^verbatim>\<open>checkin\<close> throws the already-checked-in error exactly
  when the table holds an open session for the pair, and then leaves the database as
  it was.  Otherwise, when the database accepts the new row (the user and the
  organization exist and the note is a text it can store), \<^verbatim>\<open>checkin\<close> adds
  exactly one row, with no end, start \<open>now\<close>, the given note (none when none was
  given) and a key not in use, and \<^verbatim>\<open>getActiveSession\<close> on the new table returns
  that row; when the database rejects the row, \<^verbatim>\<open>checkin\<close> throws the error of
  the database and leaves the database as it was.
\<close>

theorem checkin_spec:
  "(if \<exists>s \<in> set (workingSessions db). userId s = u \<and> organizationId s = org \<and> checkoutAt s = None
    then checkin u org n now db = (Inl AlreadyCheckedIn, db)
    else if accepts_session u org n db
    then (\<exists>new. checkin u org n now db
                  = (Inr new, db\<lparr> workingSessions := workingSessions db @ [new] \<rparr>)
            \<and> checkoutAt new = None \<and> checkinAt new = now \<and> note_col new = n
            \<and> userId new = u \<and> organizationId new = org
            \<and> sessionId new \<notin> sessionId ` set (workingSessions db)
            \<and> getActiveSession u org (workingSessions db @ [new]) = Some new)
    else checkin u org n now db = (Inl DatabaseError, db))"
proof (cases "getActiveSession u org (workingSessions db)")
  case (Some a)
  then have "\<exists>s \<in> set (workingSessions db). userId s = u \<and> organizationId s = org \<and> checkoutAt s = None"
    using getActive_Some[OF Some] by (auto simp: is_open_def)
  then show ?thesis using Some by (simp add: checkin_cases)
next
  case None
  then have empty: "filter (is_open u org) (workingSessions db) = []" by (simp add: getActive_None)
  then have no: "\<not> (\<exists>s \<in> set (workingSessions db).
      userId s = u \<and> organizationId s = org \<and> checkoutAt s = None)"
    by (auto simp: filter_empty_conv is_open_def)
  show ?thesis
  proof (cases "accepts_session u org n db")
    case False
    then show ?thesis using no None by (simp add: checkin_cases)
  next
    case True
    define new where "new = new_session u org n now db"
    have eq: "checkin u org n now db = (Inr new, db\<lparr> workingSessions := workingSessions db @ [new] \<rparr>)"
      using None True by (simp add: checkin_cases new_def)
    have fresh: "sessionId new \<notin> sessionId ` set (workingSessions db)"
    proof
      assume "sessionId new \<in> sessionId ` set (workingSessions db)"
      then obtain s where "s \<in> set (workingSessions db)" "sessionId s = sessionId new" by auto
      then show False using fresh_id_bound[of s "workingSessions db"] by (simp add: new_def new_session_def)
    qed
    have "find (\<lambda>s. userId s = u \<and> organizationId s = org \<and> checkoutAt s = None) (workingSessions db) = None"
      using None by (simp add: getActiveSession_def ws_findFirst_def)
    then have act: "getActiveSession u org (workingSessions db @ [new]) = Some new"
      by (simp add: getActiveSession_def ws_findFirst_def find_app new_def new_session_def)
    have props: "checkoutAt new = None" "checkinAt new = now" "note_col new = n"
      "userId new = u" "organizationId new = org"
      by (simp_all add: new_def new_session_def)
    show ?thesis using no True eq fresh act props by auto
  qed
qed

text \<open>The primary key is kept by every operation: a new row gets a fresh identifier.\<close>

lemma unique_ids_run:
  "unique_ids (workingSessions db) \<Longrightarrow> unique_ids (workingSessions (run ops db))"
  unfolding run_def
proof (induction ops arbitrary: db)
  case Nil then show ?case by simp
next
  case (Cons op ops)
  have ci: "unique_ids (workingSessions (snd (checkin u org n now db)))" for u org n now
  proof -
    have "fresh_id (workingSessions db) \<notin> sessionId ` set (workingSessions db)"
      using fresh_id_bound[of _ "workingSessions db"] by (metis imageE less_irrefl)
    then show ?thesis using Cons.prems
      by (simp add: checkin_cases new_session_def unique_ids_def)
  qed
  have co: "unique_ids (workingSessions (snd (checkout u org n now db)))" for u org n now
  proof -
    have e: "sessionId \<circ> (\<lambda>t. if sessionId t = i then t\<lparr>checkoutAt := x, note_col := y\<rparr> else t)
               = sessionId" for i x y
      by (auto simp: fun_eq_iff)
    show ?thesis using Cons.prems
      by (auto simp: checkout_cases unique_ids_def e split: option.splits)
  qed
  have "unique_ids (workingSessions (exec op db))"
    using Cons.prems ci co by (cases op) simp_all
  then show ?case using Cons.IH by simp
qed

lemma open_unique:
  assumes "open_inv rows" "a \<in> set rows" "is_open u org a" "b \<in> set rows" "is_open u org b"
  shows "a = b"
proof -
  have le: "length (filter (is_open u org) rows) \<le> 1" using assms(1) by (simp add: open_inv_alt)
  have "a \<in> set (filter (is_open u org) rows)" "b \<in> set (filter (is_open u org) rows)"
    using assms by auto
  with le show ?thesis
    by (cases "filter (is_open u org) rows") auto
qed

lemma getActive_eq:
  assumes "open_inv rows" "a \<in> set rows" "is_open u org a"
  shows "getActiveSession u org rows = Some a"
proof (cases "getActiveSession u org rows")
  case None
  then show ?thesis using assms by (auto simp: getActive_None filter_empty_conv)
next
  case (Some b)
  then show ?thesis using open_unique[OF assms] getActive_Some[OF Some] by auto
qed

lemma find_by_id:
  assumes "unique_ids rows" "a \<in> set rows"
  shows "find (\<lambda>s. sessionId s = sessionId a) rows = Some a"
proof (cases "find (\<lambda>s. sessionId s = sessionId a) rows")
  case None
  then show ?thesis using assms(2) by (auto simp: find_None_iff)
next
  case (Some b)
  then have "b \<in> set rows" "sessionId b = sessionId a" using find_Some_mem[OF Some] by auto
  then have "b = a" using assms unfolding unique_ids_def by (meson distinct_map inj_onD)
  then show ?thesis using Some by simp
qed

lemma note_or_eq: "note_or n p = (if n = None \<or> n = Some [] then p else n)"
  by (auto simp: note_or_def split: option.splits)

lemma checkout_success:
  assumes inv: "open_inv (workingSessions db)" and uniq: "unique_ids (workingSessions db)"
    and a: "a \<in> set (workingSessions db)" "is_open u org a"
    and ok: "storable_note n"
  shows "checkout u org n now db =
           (Inr (close_session n now a),
            db\<lparr> workingSessions :=
                  map (\<lambda>s. if s = a then close_session n now a else s) (workingSessions db) \<rparr>)"
    and "getActiveSession u org (workingSessions (snd (checkout u org n now db))) = None"
proof -
  have act: "getActiveSession u org (workingSessions db) = Some a" using getActive_eq[OF inv a] .
  have fnd: "find (\<lambda>s. sessionId s = sessionId a) (workingSessions db) = Some a"
    using find_by_id[OF uniq a(1)] .
  have same: "s = a" if "s \<in> set (workingSessions db)" "sessionId s = sessionId a" for s
    using that uniq a(1) unfolding unique_ids_def by (meson distinct_map inj_onD)
  have m: "map (\<lambda>t. if sessionId t = sessionId a
                then t\<lparr> checkoutAt := Some now, note_col := note_or n (note_col a) \<rparr> else t)
             (workingSessions db)
         = map (\<lambda>s. if s = a then close_session n now a else s) (workingSessions db)"
    by (rule map_cong) (auto simp: close_session_def note_or_eq dest: same)
  show eq: "checkout u org n now db =
           (Inr (close_session n now a),
            db\<lparr> workingSessions :=
                  map (\<lambda>s. if s = a then close_session n now a else s) (workingSessions db) \<rparr>)"
  proof -
    have "checkout u org n now db =
        (Inr (a\<lparr> checkoutAt := Some now, note_col := note_or n (note_col a) \<rparr>),
         db\<lparr> workingSessions := map (\<lambda>t. if sessionId t = sessionId a
                then t\<lparr> checkoutAt := Some now, note_col := note_or n (note_col a) \<rparr> else t)
                (workingSessions db) \<rparr>)"
      using act fnd ok by (simp add: checkout_cases storable_truthy)
    then show ?thesis unfolding m by (simp add: close_session_def note_or_eq)
  qed
  have "\<not> is_open u org t"
    if "t \<in> set (map (\<lambda>s. if s = a then close_session n now a else s) (workingSessions db))" for t
  proof -
    from that obtain s where s: "s \<in> set (workingSessions db)"
      "t = (if s = a then close_session n now a else s)" by auto
    show ?thesis
    proof (cases "s = a")
      case True then show ?thesis using s by (simp add: is_open_def close_session_def)
    next
      case False
      then show ?thesis using s open_unique[OF inv a s(1)] by auto
    qed
  qed
  then have "filter (is_open u org) (workingSessions (snd (checkout u org n now db))) = []"
    unfolding eq by (auto simp: filter_empty_conv)
  then show "getActiveSession u org (workingSessions (snd (checkout u org n now db))) = None"
    by (simp add: getActive_None)
qed

lemma checkout_rejected:
  assumes inv: "open_inv (workingSessions db)"
    and a: "a \<in> set (workingSessions db)" "is_open u org a"
    and bad: "\<not> storable_note n"
  shows "checkout u org n now db = (Inl DatabaseError, db)"
  using getActive_eq[OF inv a] bad by (simp add: checkout_cases storable_truthy)

lemma checkout_fail:
  assumes "\<not> (\<exists>s \<in> set (workingSessions db). is_open u org s)"
  shows "checkout u org n now db = (Inl NotCheckedIn, db)"
proof -
  have "getActiveSession u org (workingSessions db) = None"
    using assms by (auto simp: getActive_None filter_empty_conv)
  then show ?thesis by (simp add: checkout_def)
qed

text \<open>
  Claim C3, as amended.  In a database that satisfies the open-session invariant and
  the primary key: \<^verbatim>\<open>checkout\<close> throws the not-checked-in error when the pair has
  no open session.  When \<open>a\<close> is the open session and the database can store the new
  note, it returns \<open>a\<close> closed and stores it in place of \<open>a\<close>: the end is \<open>now\<close> and
  the start is the start of \<open>a\<close>, whatever their order; the note is the new one when
  one was supplied and the prior one otherwise; and the pair has no active session
  afterwards.  When the database cannot store the new note, \<^verbatim>\<open>checkout\<close> throws the
  error of the database and the session stays open.  A check-out that follows a
  check-out which returned a session or found none open throws the not-checked-in
  error.
\<close>

theorem checkout_spec:
  assumes inv: "open_inv (workingSessions db)" and uniq: "unique_ids (workingSessions db)"
  shows "(\<not> (\<exists>s \<in> set (workingSessions db). is_open u org s)
            \<longrightarrow> checkout u org n now db = (Inl NotCheckedIn, db))
       \<and> (\<forall>a \<in> set (workingSessions db). is_open u org a \<longrightarrow>
            (storable_note n \<longrightarrow>
               checkout u org n now db =
                 (Inr (close_session n now a),
                  db\<lparr> workingSessions :=
                        map (\<lambda>s. if s = a then close_session n now a else s) (workingSessions db) \<rparr>)
               \<and> checkoutAt (close_session n now a) = Some now
               \<and> checkinAt (close_session n now a) = checkinAt a
               \<and> note_col (close_session n now a) = (if n = None \<or> n = Some [] then note_col a else n)
               \<and> getActiveSession u org (workingSessions (snd (checkout u org n now db))) = None)
          \<and> (\<not> storable_note n \<longrightarrow> checkout u org n now db = (Inl DatabaseError, db)))
       \<and> (fst (checkout u org n now db) \<noteq> Inl DatabaseError \<longrightarrow>
            fst (checkout u org n' now' (snd (checkout u org n now db))) = Inl NotCheckedIn)"
proof (intro conjI impI ballI)
  assume "\<not> (\<exists>s \<in> set (workingSessions db). is_open u org s)"
  then show "checkout u org n now db = (Inl NotCheckedIn, db)" by (rule checkout_fail)
next
  fix a assume a: "a \<in> set (workingSessions db)" "is_open u org a"
  {
    assume bad: "\<not> storable_note n"
    show "checkout u org n now db = (Inl DatabaseError, db)"
      using checkout_rejected[OF inv a bad] .
  }
  assume ok: "storable_note n"
  show "checkout u org n now db =
                 (Inr (close_session n now a),
                  db\<lparr> workingSessions :=
                        map (\<lambda>s. if s = a then close_session n now a else s) (workingSessions db) \<rparr>)"
    using checkout_success(1)[OF inv uniq a ok] .
  show "getActiveSession u org (workingSessions (snd (checkout u org n now db))) = None"
    using checkout_success(2)[OF inv uniq a ok] .
  show "checkoutAt (close_session n now a) = Some now" by (simp add: close_session_def)
  show "checkinAt (close_session n now a) = checkinAt a" by (simp add: close_session_def)
  show "note_col (close_session n now a) = (if n = None \<or> n = Some [] then note_col a else n)"
    by (simp add: close_session_def)
next
  assume ne: "fst (checkout u org n now db) \<noteq> Inl DatabaseError"
  have none: "getActiveSession u org (workingSessions (snd (checkout u org n now db))) = None"
  proof (cases "\<exists>s \<in> set (workingSessions db). is_open u org s")
    case True
    then obtain a where a: "a \<in> set (workingSessions db)" "is_open u org a" by blast
    have "storable_note n"
    proof (rule ccontr)
      assume "\<not> storable_note n"
      from checkout_rejected[OF inv a this] ne show False by simp
    qed
    then show ?thesis using checkout_success(2)[OF inv uniq a] by blast
  next
    case False
    then show ?thesis using checkout_fail[OF False, of n now]
      by (auto simp: getActive_None filter_empty_conv)
  qed
  then show "fst (checkout u org n' now' (snd (checkout u org n now db))) = Inl NotCheckedIn"
    by (simp add: checkout_def)
qed

text \<open>
  With a clock that never goes back no session ends before it starts.
\<close>

lemma clock_inv_mono: "clock_inv t rows \<Longrightarrow> t \<le> t' \<Longrightarrow> clock_inv t' rows"
  unfolding clock_inv_def by (meson order_trans)

lemma clock_inv_checkin:
  assumes "clock_inv t (workingSessions db)" "t \<le> now"
  shows "clock_inv now (workingSessions (snd (checkin u org n now db)))"
  using clock_inv_mono[OF assms]
  by (auto simp: checkin_cases new_session_def clock_inv_def)

lemma clock_inv_checkout:
  assumes "clock_inv t (workingSessions db)" "t \<le> now"
  shows "clock_inv now (workingSessions (snd (checkout u org n now db)))"
  using clock_inv_mono[OF assms]
  by (auto simp: checkout_cases clock_inv_def split: option.splits)

lemma clock_inv_run:
  "clock_inv t (workingSessions db) \<Longrightarrow> clock_ok t ops
     \<Longrightarrow> \<exists>t'. clock_inv t' (workingSessions (run ops db))"
  unfolding run_def
proof (induction ops arbitrary: t db)
  case Nil
  then show ?case by auto
next
  case (Cons op ops)
  have "clock_inv (op_time t op) (workingSessions (exec op db))"
    using Cons.prems by (cases op) (simp_all add: clock_inv_checkin clock_inv_checkout)
  then show ?case using Cons.IH[of "op_time t op" "exec op db"] Cons.prems by simp
qed

lemma end_after_start:
  assumes "clock_inv t (workingSessions db)" "clock_ok t ops"
    "s \<in> set (workingSessions (run ops db))" "checkoutAt s = Some out"
  shows "checkinAt s \<le> out"
  using clock_inv_run[OF assms(1,2)] assms(3,4) unfolding clock_inv_def by fastforce

text \<open>
  Claim C9.  A check-out with the empty string as note keeps the prior note of the
  open session, in the returned session and in the table: it does what a
  check-out with no note does.
\<close>

theorem checkout_empty_note:
  assumes "getActiveSession u org (workingSessions db) = Some a"
  shows "\<exists>closed. fst (checkout u org (Some []) now db) = Inr closed
           \<and> note_col closed = note_col a \<and> checkoutAt closed = Some now
           \<and> (\<forall>s \<in> set (workingSessions (snd (checkout u org (Some []) now db))).
                 sessionId s = sessionId a \<longrightarrow> note_col s = note_col a)
           \<and> checkout u org (Some []) now db = checkout u org None now db"
  using assms
  by (auto simp: checkout_cases note_or_def truthy_def storable_note_def)

text \<open>
  Claim C10.  When \<^verbatim>\<open>checkin\<close> or \<^verbatim>\<open>checkout\<close> throws, with the
  already-checked-in or the not-checked-in error or with any other, the database
  after the call is the database before it: no session is created or modified.
\<close>

theorem failure_atomic:
  "(\<forall>e. fst (checkin u org n now db) = Inl e \<longrightarrow> snd (checkin u org n now db) = db)
 \<and> (\<forall>e. fst (checkout u org n now db) = Inl e \<longrightarrow> snd (checkout u org n now db) = db)
 \<and> (fst (checkin u org n now db) = Inl AlreadyCheckedIn
       \<longleftrightarrow> getActiveSession u org (workingSessions db) \<noteq> None)
 \<and> (fst (checkout u org n now db) = Inl NotCheckedIn
       \<longleftrightarrow> getActiveSession u org (workingSessions db) = None)"
  by (auto simp: checkin_cases checkout_cases split: option.splits if_splits)

text \<open>
  Claim C8.  \<^verbatim>\<open>getSessionsByDateRange\<close> returns exactly the rows of the pair
  whose start lies in the closed interval, each as often as the table holds it,
  in ascending order of start.
\<close>

theorem sessionsInRange_spec:
  "mset (getSessionsByDateRange u org st en rows) =
     filter_mset (\<lambda>s. userId s = u \<and> organizationId s = org \<and> st \<le> checkinAt s \<and> checkinAt s \<le> en) (mset rows)
   \<and> sorted (map checkinAt (getSessionsByDateRange u org st en rows))"
  by (simp add: getSessionsByDateRange_def ws_findMany_def)

section \<open>The monthly report\<close>

lemma new_Date_utc_2024:
  "new_Date utc 2024 0 1 0 0 0 = Some 1704067200000"
  "new_Date utc 2024 1 0 23 59 59 = Some 1706745599000"
  "new_Date utc 2024 1 1 0 0 0 = Some 1706745600000"
  "new_Date utc 2024 2 0 23 59 59 = Some 1709251199000"
  by (simp_all add: new_Date_def utc_def MakeDate_def MakeDay_def MakeTime_def msPerDay_def
        DayFromYear_def DaysBeforeMonth_def InLeapYear_def TimeClip_def Let_def)

text \<open>
  Claim C4.  The window of the report ends at 23:59:59.000 of the last day of the
  month, not at the last instant of that day.  A session that starts in the last
  second of January 2024, half a second before February, and ends an hour later
  is in neither the report of January nor the report of February: both have total
  0 and no session, although the start falls in January and the end is set.
\<close>

theorem monthlyReport_last_second:
  "new_Date utc 2024 0 1 0 0 0 = Some 1704067200000
   \<and> new_Date utc 2024 1 1 0 0 0 = Some 1706745600000
   \<and> 1704067200000 \<le> checkinAt last_second
   \<and> checkinAt last_second < 1706745600000
   \<and> checkoutAt last_second = Some (checkinAt last_second + 3600000)
   \<and> getMonthlyReport num utc ''U'' ''O'' 2024 1 [last_second]
        = Inr \<lparr> totalWorkingHours = num_zero num, sessions = [] \<rparr>
   \<and> getMonthlyReport num utc ''U'' ''O'' 2024 2 [last_second]
        = Inr \<lparr> totalWorkingHours = num_zero num, sessions = [] \<rparr>"
  by (simp add: getMonthlyReport_def new_Date_utc_2024 getSessionsByDateRange_def ws_findMany_def
        last_second_def)

text \<open>
  What the report does return, when both bounds are dates: the sessions of the pair
  that start between \<^verbatim>\<open>new Date(year, month - 1, 1)\<close> and
  \<^verbatim>\<open>new Date(year, month, 0, 23, 59, 59)\<close>, open ones included, and as total the hours
  of those among them that have an end, added up in the order of the list.
\<close>

lemma foldl_add_hours:
  "foldl (add_hours num) acc xs =
     foldl (\<lambda>t s. num_add num t (num_hours num (the (checkoutAt s) - checkinAt s))) acc
       (filter (\<lambda>s. checkoutAt s \<noteq> None) xs)"
  by (induction xs arbitrary: acc) (auto simp: add_hours_def split: option.splits)

lemma monthlyReport_window:
  assumes "new_Date tza year (month - 1) 1 0 0 0 = Some startDate"
    and "new_Date tza year month 0 23 59 59 = Some endDate"
  shows "\<exists>r. getMonthlyReport num tza u org year month rows = Inr r
     \<and> sessions r = getSessionsByDateRange u org startDate endDate rows
     \<and> totalWorkingHours r =
         foldl (\<lambda>t s. num_add num t (num_hours num (the (checkoutAt s) - checkinAt s)))
           (num_zero num) (filter (\<lambda>s. checkoutAt s \<noteq> None) (sessions r))"
  using assms by (simp add: getMonthlyReport_def Let_def foldl_add_hours)

lemma monthlyReport_invalid:
  "new_Date tza year (month - 1) 1 0 0 0 = None \<or> new_Date tza year month 0 23 59 59 = None
     \<Longrightarrow> getMonthlyReport num tza u org year month rows = Inl InvalidDate"
  by (auto simp: getMonthlyReport_def split: option.splits)

section \<open>The channel adapters\<close>

lemma checkin_error:
  "fst (checkin u org n now db) = Inl e \<Longrightarrow> snd (checkin u org n now db) = db"
  by (auto simp: checkin_cases split: if_splits)

lemma checkout_error:
  "fst (checkout u org n now db) = Inl e \<Longrightarrow> snd (checkout u org n now db) = db"
  by (auto simp: checkout_cases split: option.splits if_splits)

lemma map_filter_Cons_mem:
  "List.map_filter f xs = y # ys \<Longrightarrow> \<exists>x \<in> set xs. f x = Some y"
  by (induction xs) (auto simp: List.map_filter_simps split: option.splits)

lemma first_org_active:
  assumes "getUserOrganizations uid db = organization # others"
  shows "\<exists>m \<in> set (memberships db). m_userId m = uid \<and> m_status m = ACTIVE
            \<and> m_organizationId m = o_id organization"
proof -
  from map_filter_Cons_mem[OF assms[unfolded getUserOrganizations_def]]
  obtain m where m: "m \<in> set (filter (\<lambda>m. m_userId m = uid \<and> m_status m = ACTIVE) (memberships db))"
    and f: "find (\<lambda>org. o_id org = m_organizationId m) (organizations db) = Some organization"
    by blast
  from find_Some_mem[OF f] have "o_id organization = m_organizationId m" by simp
  with m show ?thesis by auto
qed

text \<open>
  Claim C6.  When the organizations of the user are \<open>organization # others\<close>, the
  check-in, check-out and status handlers of both adapters run the engine on
  \<open>organization\<close>, the first of them: each handler is the engine call for the user
  and that organization, with its reply.  The organization is that of an ACTIVE
  membership of the user.
\<close>

theorem first_organization:
  assumes orgs: "getUserOrganizations (u_id user) db = organization # others"
  shows "(findBySlackUserId (user_id command) db = Some user \<longrightarrow>
            setupCheckinHandler command now db =
              (case checkin (u_id user) (o_id organization) (slack_note command) now db of
                 (Inr session, db') \<Rightarrow>
                   ([Ack, Respond (CheckinDone (user_name command) (truthy (slack_note command)))],
                    db')
               | (Inl e, db') \<Rightarrow> ([Ack, Respond (ErrorReply e)], db'))
          \<and> setupCheckoutHandler command now db =
              (case checkout (u_id user) (o_id organization) (slack_note command) now db of
                 (Inr session, db') \<Rightarrow>
                   ([Ack, Respond (CheckoutDone (user_name command) (truthy (slack_note command))
                                     (hours_of session))],
                    db')
               | (Inl e, db') \<Rightarrow> ([Ack, Respond (ErrorReply e)], db'))
          \<and> setupStatusHandler command db = ([Ack, Respond (status_reply (o_id organization) db)], db))
       \<and> (findByChatworkUserId chatworkId db = Some user \<longrightarrow>
            handleCheckinCommand chatworkId n now db =
              (case checkin (u_id user) (o_id organization) n now db of
                 (Inr session, db') \<Rightarrow>
                   (CheckinDone (u_name user) (truthy n), db')
               | (Inl e, db') \<Rightarrow> (ErrorReply e, db'))
          \<and> handleCheckoutCommand chatworkId n now db =
              (case checkout (u_id user) (o_id organization) n now db of
                 (Inr session, db') \<Rightarrow>
                   (CheckoutDone (u_name user) (truthy n) (hours_of session),
                    db')
               | (Inl e, db') \<Rightarrow> (ErrorReply e, db'))
          \<and> handleStatusCommand chatworkId db = (status_reply (o_id organization) db, db))
       \<and> (\<exists>m \<in> set (memberships db). m_userId m = u_id user \<and> m_status m = ACTIVE
              \<and> m_organizationId m = o_id organization)"
proof (intro conjI impI)
  show "\<exists>m \<in> set (memberships db). m_userId m = u_id user \<and> m_status m = ACTIVE
              \<and> m_organizationId m = o_id organization"
    using first_org_active[OF orgs] .
next
  assume u: "findBySlackUserId (user_id command) db = Some user"
  show "setupCheckinHandler command now db =
              (case checkin (u_id user) (o_id organization) (slack_note command) now db of
                 (Inr session, db') \<Rightarrow>
                   ([Ack, Respond (CheckinDone (user_name command) (truthy (slack_note command)))],
                    db')
               | (Inl e, db') \<Rightarrow> ([Ack, Respond (ErrorReply e)], db'))"
    using u orgs by (simp add: setupCheckinHandler_def Let_def)
  show "setupCheckoutHandler command now db =
              (case checkout (u_id user) (o_id organization) (slack_note command) now db of
                 (Inr session, db') \<Rightarrow>
                   ([Ack, Respond (CheckoutDone (user_name command) (truthy (slack_note command))
                                     (hours_of session))],
                    db')
               | (Inl e, db') \<Rightarrow> ([Ack, Respond (ErrorReply e)], db'))"
    using u orgs by (simp add: setupCheckoutHandler_def Let_def)
  show "setupStatusHandler command db = ([Ack, Respond (status_reply (o_id organization) db)], db)"
    using u orgs by (simp add: setupStatusHandler_def)
next
  assume u: "findByChatworkUserId chatworkId db = Some user"
  show "handleCheckinCommand chatworkId n now db =
              (case checkin (u_id user) (o_id organization) n now db of
                 (Inr session, db') \<Rightarrow>
                   (CheckinDone (u_name user) (truthy n), db')
               | (Inl e, db') \<Rightarrow> (ErrorReply e, db'))"
    using u orgs by (simp add: handleCheckinCommand_def)
  show "handleCheckoutCommand chatworkId n now db =
              (case checkout (u_id user) (o_id organization) n now db of
                 (Inr session, db') \<Rightarrow>
                   (CheckoutDone (u_name user) (truthy n) (hours_of session),
                    db')
               | (Inl e, db') \<Rightarrow> (ErrorReply e, db'))"
    using u orgs by (simp add: handleCheckoutCommand_def)
  show "handleStatusCommand chatworkId db = (status_reply (o_id organization) db, db)"
    using u orgs by (simp add: handleStatusCommand_def)
qed

lemma slack_checkin_error:
  assumes "findBySlackUserId (user_id command) db = Some user"
    and "getUserOrganizations (u_id user) db = organization # others"
    and e: "fst (checkin (u_id user) (o_id organization) (slack_note command) now db) = Inl e"
  shows "setupCheckinHandler command now db = ([Ack, Respond (ErrorReply e)], db)"
proof -
  obtain r db' where c: "checkin (u_id user) (o_id organization) (slack_note command) now db = (r, db')"
    by (cases "checkin (u_id user) (o_id organization) (slack_note command) now db")
  with e checkin_error[OF e] have "r = Inl e" "db' = db" by simp_all
  then show ?thesis using assms(1,2) c by (simp add: setupCheckinHandler_def Let_def)
qed

lemma slack_checkout_error:
  assumes "findBySlackUserId (user_id command) db = Some user"
    and "getUserOrganizations (u_id user) db = organization # others"
    and e: "fst (checkout (u_id user) (o_id organization) (slack_note command) now db) = Inl e"
  shows "setupCheckoutHandler command now db = ([Ack, Respond (ErrorReply e)], db)"
proof -
  obtain r db' where c: "checkout (u_id user) (o_id organization) (slack_note command) now db = (r, db')"
    by (cases "checkout (u_id user) (o_id organization) (slack_note command) now db")
  with e checkout_error[OF e] have "r = Inl e" "db' = db" by simp_all
  then show ?thesis using assms(1,2) c by (simp add: setupCheckoutHandler_def Let_def)
qed

lemma chatwork_checkin_error:
  assumes "findByChatworkUserId cid db = Some user"
    and "getUserOrganizations (u_id user) db = organization # others"
    and e: "fst (checkin (u_id user) (o_id organization) n now db) = Inl e"
  shows "handleCheckinCommand cid n now db = (ErrorReply e, db)"
proof -
  obtain r db' where c: "checkin (u_id user) (o_id organization) n now db = (r, db')"
    by (cases "checkin (u_id user) (o_id organization) n now db")
  with e checkin_error[OF e] have "r = Inl e" "db' = db" by simp_all
  then show ?thesis using assms(1,2) c by (simp add: handleCheckinCommand_def)
qed

lemma chatwork_checkout_error:
  assumes "findByChatworkUserId cid db = Some user"
    and "getUserOrganizations (u_id user) db = organization # others"
    and e: "fst (checkout (u_id user) (o_id organization) n now db) = Inl e"
  shows "handleCheckoutCommand cid n now db = (ErrorReply e, db)"
proof -
  obtain r db' where c: "checkout (u_id user) (o_id organization) n now db = (r, db')"
    by (cases "checkout (u_id user) (o_id organization) n now db")
  with e checkout_error[OF e] have "r = Inl e" "db' = db" by simp_all
  then show ?thesis using assms(1,2) c by (simp add: handleCheckoutCommand_def)
qed

lemma slack_always_acks:
  "(\<exists>r. fst (setupCheckinHandler command now db) = [Ack, Respond r])
   \<and> (\<exists>r. fst (setupCheckoutHandler command now db) = [Ack, Respond r])"
  by (auto simp: setupCheckinHandler_def setupCheckoutHandler_def Let_def
           split: option.splits list.splits prod.splits sum.splits)

text \<open>
  Claim C7.  When the engine call of a check-in or check-out throws, the Slack
  handler has acknowledged the command and responds with the error text, and the
  Chatwork handler sends the error text to the room and answers the webhook with
  its success response; the database is unchanged.  Every Slack check-in and
  check-out is acknowledged and gets exactly one response.
\<close>

theorem engine_errors_caught:
  "(findBySlackUserId (user_id command) db = Some user
      \<and> getUserOrganizations (u_id user) db = organization # others \<longrightarrow>
      (fst (checkin (u_id user) (o_id organization) (slack_note command) now db) = Inl e
         \<longrightarrow> setupCheckinHandler command now db = ([Ack, Respond (ErrorReply e)], db))
    \<and> (fst (checkout (u_id user) (o_id organization) (slack_note command) now db) = Inl e
         \<longrightarrow> setupCheckoutHandler command now db = ([Ack, Respond (ErrorReply e)], db)))
 \<and> (token_header req = Some webhookToken \<and> webhook_event_type req = ''message_created''
      \<and> findByChatworkUserId (account_id req) db = Some user
      \<and> getUserOrganizations (u_id user) db = organization # others \<longrightarrow>
      (parseCommand (message_body req) = Some (''checkin'', param)
         \<and> fst (checkin (u_id user) (o_id organization) param now db) = Inl e
         \<longrightarrow> handleWebhook webhookToken req now db =
               \<lparr> response = Success, sent = [(room_id req, ErrorReply e)], db_after = db \<rparr>)
    \<and> (parseCommand (message_body req) = Some (''checkout'', param)
         \<and> fst (checkout (u_id user) (o_id organization) param now db) = Inl e
         \<longrightarrow> handleWebhook webhookToken req now db =
               \<lparr> response = Success, sent = [(room_id req, ErrorReply e)], db_after = db \<rparr>))
 \<and> (\<exists>r. fst (setupCheckinHandler command now db) = [Ack, Respond r])
 \<and> (\<exists>r. fst (setupCheckoutHandler command now db) = [Ack, Respond r])"
proof (intro conjI impI; (elim conjE)?)
  show "\<exists>r. fst (setupCheckinHandler command now db) = [Ack, Respond r]"
    using slack_always_acks by blast
  show "\<exists>r. fst (setupCheckoutHandler command now db) = [Ack, Respond r]"
    using slack_always_acks by blast
next
  assume "findBySlackUserId (user_id command) db = Some user"
    "getUserOrganizations (u_id user) db = organization # others"
    "fst (checkin (u_id user) (o_id organization) (slack_note command) now db) = Inl e"
  then show "setupCheckinHandler command now db = ([Ack, Respond (ErrorReply e)], db)"
    by (rule slack_checkin_error)
next
  assume "findBySlackUserId (user_id command) db = Some user"
    "getUserOrganizations (u_id user) db = organization # others"
    "fst (checkout (u_id user) (o_id organization) (slack_note command) now db) = Inl e"
  then show "setupCheckoutHandler command now db = ([Ack, Respond (ErrorReply e)], db)"
    by (rule slack_checkout_error)
next
  assume h: "token_header req = Some webhookToken" "webhook_event_type req = ''message_created''"
    "parseCommand (message_body req) = Some (''checkin'', param)"
    and "findByChatworkUserId (account_id req) db = Some user"
    "getUserOrganizations (u_id user) db = organization # others"
    "fst (checkin (u_id user) (o_id organization) param now db) = Inl e"
  then have "handleCheckinCommand (account_id req) param now db = (ErrorReply e, db)"
    by (intro chatwork_checkin_error)
  then show "handleWebhook webhookToken req now db =
               \<lparr> response = Success, sent = [(room_id req, ErrorReply e)], db_after = db \<rparr>"
    using h by (simp add: handleWebhook_def)
next
  assume h: "token_header req = Some webhookToken" "webhook_event_type req = ''message_created''"
    "parseCommand (message_body req) = Some (''checkout'', param)"
    and "findByChatworkUserId (account_id req) db = Some user"
    "getUserOrganizations (u_id user) db = organization # others"
    "fst (checkout (u_id user) (o_id organization) param now db) = Inl e"
  then have "handleCheckoutCommand (account_id req) param now db = (ErrorReply e, db)"
    by (intro chatwork_checkout_error)
  then show "handleWebhook webhookToken req now db =
               \<lparr> response = Success, sent = [(room_id req, ErrorReply e)], db_after = db \<rparr>"
    using h by (simp add: handleWebhook_def)
qed

section \<open>The command parser\<close>

text \<open>
  A match ends between its start and the end of the string.
\<close>

lemma matches_bounds:
  "i \<le> length s \<Longrightarrow> (j, c) \<in> set (matches r s i cap) \<Longrightarrow> i \<le> j \<and> j \<le> length s"
proof (induction r s i cap arbitrary: j c rule: matches.induct)
  case (7 r1 r2 s i cap)
  from 7(4) obtain k c' where k: "(k, c') \<in> set (matches r1 s i cap)"
    and j: "(j, c) \<in> set (matches r2 s k c')"
    by (auto simp: matches.simps(7))
  from 7(1)[OF 7(3) k] have "i \<le> k" "k \<le> length s" by simp_all
  moreover from 7(2)[of "(k, c')" k c' j c] k j \<open>k \<le> length s\<close>
  have "k \<le> j \<and> j \<le> length s" by simp
  ultimately show ?case by simp
next
  case (8 n r s i cap)
  then show ?case by (auto simp: matches.simps(8))
next
  case (9 r s i cap)
  then show ?case by (auto simp: matches.simps(9))
next
  case (10 r s i cap)
  from 10(4) consider "(j, c) = (i, cap)"
    | k c' where "(k, c') \<in> set (matches r s i (clear r cap))" "i < k" "k \<le> length s"
        "(j, c) \<in> set (matches (Star r) s k c')"
    by (auto simp: matches.simps(10)[of r s i cap])
  then show ?case
  proof cases
    case 1
    then show ?thesis using 10(3) by simp
  next
    case 2
    from 10(2)[of "(k, c')" k c' j c] 2 have "k \<le> j \<and> j \<le> length s" by simp
    with 2(2) show ?thesis by simp
  qed
qed (auto simp: matches.simps split: if_splits)

text \<open>
  So the test on an iteration of the star is the one of ECMAScript, which rejects an
  iteration that ends where it started.
\<close>

lemma star_filter_moved:
  assumes "i \<le> length s"
  shows "filter (\<lambda>(j, c). i < j \<and> j \<le> length s) (matches r s i cap)
       = filter (\<lambda>(j, c). j \<noteq> i) (matches r s i cap)"
proof (rule filter_cong[OF refl])
  fix x assume x: "x \<in> set (matches r s i cap)"
  obtain j c where jc: "x = (j, c)" by (cases x)
  with matches_bounds[OF assms, of j c r cap] x have "i \<le> j \<and> j \<le> length s" by simp
  then show "(case x of (j, c) \<Rightarrow> i < j \<and> j \<le> length s) = (case x of (j, c) \<Rightarrow> j \<noteq> i)"
    using jc by auto
qed

lemma take_Suc_drop:
  "take (Suc n) (drop i s) = c # cs \<longleftrightarrow> i < length s \<and> s ! i = c \<and> take n (drop (Suc i) s) = cs"
proof (cases "i < length s")
  case True
  then have "drop i s = s ! i # drop (Suc i) s" by (simp add: Cons_nth_drop_Suc)
  then show ?thesis using True by auto
next
  case False
  then show ?thesis by simp
qed

lemma matches_chars:
  "matches (foldr Seq (map Chr cs) r) s i cap =
     (if take (length cs) (drop i s) = cs then matches r s (i + length cs) cap else [])"
proof (induction cs arbitrary: i)
  case Nil
  then show ?case by simp
next
  case (Cons c cs)
  show ?case
    by (simp add: matches_basic Cons.IH take_Suc_drop del: take_Suc_Cons)
qed

lemma clear_no_groups: "groups r = {} \<Longrightarrow> clear r cap = cap"
  by (simp add: clear_def)

lemma matches_star_class:
  assumes step: "\<And>i cap. matches r s i cap = (if i < length s \<and> P (s ! i) then [(Suc i, cap)] else [])"
    and ng: "groups r = {}"
  shows "matches (Star r) s i cap =
           map (\<lambda>j. (j, cap)) (rev [i ..< Suc (i + length (takeWhile P (drop i s)))])"
proof (induction "length s - i" arbitrary: i)
  case 0
  then have "drop i s = []" by simp
  moreover have "\<not> i < length s" using 0 by simp
  ultimately show ?case by (simp add: matches.simps(10) step clear_no_groups[OF ng])
next
  case (Suc k)
  then have lt: "i < length s" by simp
  then have d: "drop i s = s ! i # drop (Suc i) s" by (simp add: Cons_nth_drop_Suc)
  show ?case
  proof (cases "P (s ! i)")
    case False
    then show ?thesis using lt d by (simp add: matches.simps(10) step clear_no_groups[OF ng])
  next
    case True
    have k: "k = length s - Suc i" using Suc(2) by simp
    have "matches (Star r) s i cap = matches (Star r) s (Suc i) cap @ [(i, cap)]"
      using lt True by (simp add: matches.simps(10)[of r s i] step clear_no_groups[OF ng])
    also have "\<dots> = map (\<lambda>j. (j, cap))
        (rev [Suc i ..< Suc (Suc i + length (takeWhile P (drop (Suc i) s)))]) @ [(i, cap)]"
      using Suc(1)[OF k] by simp
    also have "\<dots> = map (\<lambda>j. (j, cap)) (rev [i ..< Suc (i + length (takeWhile P (drop i s)))])"
    proof -
      define n where "n = length (takeWhile P (drop (Suc i) s))"
      have tw: "length (takeWhile P (drop i s)) = Suc n"
        using True d by (simp add: n_def)
      have up: "[i ..< Suc (i + Suc n)] = i # [Suc i ..< Suc (Suc i + n)]"
        by (simp add: upt_conv_Cons)
      show ?thesis unfolding tw up n_def[symmetric] by simp
    qed
    finally show ?thesis .
  qed
qed

lemma matches_star_space:
  "matches (Star Space) s i cap =
     map (\<lambda>j. (j, cap)) (rev [i ..< Suc (i + length (takeWhile is_space (drop i s)))])"
  by (rule matches_star_class) (simp_all add: matches_basic)

lemma matches_star_dot:
  "matches (Star Dot) s i cap =
     map (\<lambda>j. (j, cap)) (rev [i ..< Suc (i + length (takeWhile (\<lambda>c. \<not> is_line_terminator c) (drop i s)))])"
  by (rule matches_star_class) (simp_all add: matches_basic)

lemma filter_eq_upt: "filter (\<lambda>j. j = L) [a ..< b] = (if a \<le> L \<and> L < b then [L] else [])"
  by (induction b) auto

lemma filter_neq_upt: "filter (\<lambda>j. j \<noteq> k) [Suc k ..< b] = [Suc k ..< b]"
  by (simp add: filter_id_conv)

lemma concat_map_end:
  "concat (map (\<lambda>(j, c). if j = L then [(j, c)] else []) xs) = filter (\<lambda>(j, c). j = L) xs"
  by (induction xs) auto

lemma length_takeWhile_all:
  "length (takeWhile P xs) = length xs \<longleftrightarrow> \<not> list_ex (\<lambda>x. \<not> P x) xs"
proof -
  have "length (takeWhile P xs) = length xs \<longleftrightarrow> takeWhile P xs = xs"
  proof
    assume l: "length (takeWhile P xs) = length xs"
    have "takeWhile P xs @ dropWhile P xs = xs" by simp
    then have "length (takeWhile P xs) + length (dropWhile P xs) = length xs"
      by (metis length_append)
    with l have "dropWhile P xs = []" by simp
    then show "takeWhile P xs = xs" by (metis append_Nil2 takeWhile_dropWhile_id)
  next
    assume "takeWhile P xs = xs"
    then show "length (takeWhile P xs) = length xs" by (rule arg_cong)
  qed
  then show ?thesis by (simp add: takeWhile_eq_all_conv list_ex_iff)
qed

lemma matches_opt_group:
  "matches (Opt (Group 1 (Star Dot))) s k cap =
     map (\<lambda>j. (j, cap(1 \<mapsto> take (j - k) (drop k s))))
       (rev [Suc k ..< Suc (k + length (takeWhile (\<lambda>c. \<not> is_line_terminator c) (drop k s)))])
     @ [(k, cap)]"
proof -
  define m where "m = length (takeWhile (\<lambda>c. \<not> is_line_terminator c) (drop k s))"
  have cl: "(clear (Group n (Star Dot)) cap)(n \<mapsto> x) = cap(n \<mapsto> x)" for x n
    by (auto simp: clear_def)
  have up: "[k ..< Suc (k + m)] = k # [Suc k ..< Suc (k + m)]"
    by (simp add: upt_conv_Cons)
  have "matches (Group 1 (Star Dot)) s k (clear (Group 1 (Star Dot)) cap) =
      map (\<lambda>j. (j, cap(1 \<mapsto> take (j - k) (drop k s)))) (rev [k ..< Suc (k + m)])"
    by (simp add: matches_basic matches_star_dot m_def[symmetric] cl comp_def del: upt_Suc)
  then have "matches (Opt (Group 1 (Star Dot))) s k cap =
      filter (\<lambda>(j, c). j \<noteq> k)
        (map (\<lambda>j. (j, cap(1 \<mapsto> take (j - k) (drop k s)))) (rev [k ..< Suc (k + m)])) @ [(k, cap)]"
    by (simp add: matches_basic)
  also have "filter (\<lambda>(j, c). j \<noteq> k)
        (map (\<lambda>j. (j, cap(1 \<mapsto> take (j - k) (drop k s)))) (rev [k ..< Suc (k + m)]))
      = map (\<lambda>j. (j, cap(1 \<mapsto> take (j - k) (drop k s)))) (rev (filter (\<lambda>j. j \<noteq> k) [k ..< Suc (k + m)]))"
    by (simp add: filter_map comp_def rev_filter del: upt_Suc)
  also have "filter (\<lambda>j. j \<noteq> k) [k ..< Suc (k + m)] = [Suc k ..< Suc (k + m)]"
    unfolding up using filter_neq_upt[of k "Suc (k + m)"] by simp
  finally show ?thesis unfolding m_def .
qed

lemma matches_end: "matches (Seq LineEnd Empty) s j c = (if j = length s then [(j, c)] else [])"
  by (simp add: matches_basic)

lemma matches_tail:
  assumes k: "k \<le> length s"
  shows "matches (Seq (Opt (Group 1 (Star Dot))) (Seq LineEnd Empty)) s k cap =
           (if list_ex is_line_terminator (drop k s) then []
            else [(length s, if drop k s = [] then cap else cap(1 \<mapsto> drop k s))])"
proof -
  define m where "m = length (takeWhile (\<lambda>c. \<not> is_line_terminator c) (drop k s))"
  define g where "g = (\<lambda>j. (j, cap(1 \<mapsto> take (j - k) (drop k s))))"
  have mle: "k + m \<le> length s"
    using length_takeWhile_le[of "\<lambda>c. \<not> is_line_terminator c" "drop k s"] k by (simp add: m_def)
  have all: "k + m = length s \<longleftrightarrow> \<not> list_ex is_line_terminator (drop k s)"
    using length_takeWhile_all[of "\<lambda>c. \<not> is_line_terminator c" "drop k s"] k
    by (auto simp: m_def)
  have "matches (Seq (Opt (Group 1 (Star Dot))) (Seq LineEnd Empty)) s k cap =
      filter (\<lambda>(j, c). j = length s) (map g (rev [Suc k ..< Suc (k + m)]) @ [(k, cap)])"
    unfolding matches.simps(7)[of "Opt (Group 1 (Star Dot))"] matches_end matches_opt_group
      concat_map_end m_def g_def ..
  also have "\<dots> = map g (rev (filter (\<lambda>j. j = length s) [Suc k ..< Suc (k + m)]))
        @ (if k = length s then [(k, cap)] else [])"
    by (simp add: filter_map comp_def rev_filter g_def del: upt_Suc)
  also have "\<dots> = (if Suc k \<le> length s \<and> length s < Suc (k + m) then [g (length s)] else [])
        @ (if k = length s then [(k, cap)] else [])"
    unfolding filter_eq_upt by simp
  also have "\<dots> = (if list_ex is_line_terminator (drop k s) then []
            else [(length s, if drop k s = [] then cap else cap(1 \<mapsto> drop k s))])"
  proof (cases "list_ex is_line_terminator (drop k s)")
    case True
    then have "k + m \<noteq> length s" using all by simp
    with mle have "k + m < length s" by simp
    then show ?thesis using True by simp
  next
    case False
    then have e: "k + m = length s" using all by simp
    show ?thesis
    proof (cases "k = length s")
      case True
      then show ?thesis using False by simp
    next
      case ne: False
      then have "k < length s" using k by simp
      then show ?thesis using False e ne by (simp add: g_def)
    qed
  qed
  finally show ?thesis .
qed

lemma list_ex_drop_mono:
  "j \<le> n \<Longrightarrow> list_ex P (drop n s) \<Longrightarrow> list_ex P (drop j s)"
proof -
  assume "j \<le> n" and ex: "list_ex P (drop n s)"
  then have "drop n s = drop (n - j) (drop j s)" by simp
  then have "set (drop n s) \<subseteq> set (drop j s)" by (metis set_drop_subset)
  with ex show ?thesis by (auto simp: list_ex_iff)
qed

lemma matches_space_tail:
  assumes i: "i \<le> length s"
  defines "p \<equiv> dropWhile is_space (drop i s)"
  shows "list_ex is_line_terminator p \<Longrightarrow>
           matches (Seq (Star Space) (Seq (Opt (Group 1 (Star Dot))) (Seq LineEnd Empty))) s i cap = []"
    and "\<not> list_ex is_line_terminator p \<Longrightarrow>
           \<exists>rest. matches (Seq (Star Space) (Seq (Opt (Group 1 (Star Dot))) (Seq LineEnd Empty))) s i cap
              = (length s, if p = [] then cap else cap(1 \<mapsto> p)) # rest"
proof -
  define n where "n = length (takeWhile is_space (drop i s))"
  define T where "T = Seq (Opt (Group 1 (Star Dot))) (Seq LineEnd Empty)"
  have p: "p = drop (i + n) s"
    by (simp add: p_def n_def dropWhile_eq_drop add.commute)
  have nle: "i + n \<le> length s"
    using length_takeWhile_le[of is_space "drop i s"] i by (simp add: n_def)
  have m: "matches (Seq (Star Space) T) s i cap =
      concat (map (\<lambda>j. matches T s j cap) (rev [i ..< Suc (i + n)]))"
    by (simp add: matches_basic matches_star_space n_def comp_def del: upt_Suc)
  {
    assume ex: "list_ex is_line_terminator p"
    have "matches T s j cap = []" if "j \<in> set (rev [i ..< Suc (i + n)])" for j
    proof -
      from that have j: "j \<le> i + n" by auto
      then have "j \<le> length s" using nle by simp
      moreover have "list_ex is_line_terminator (drop j s)"
        using list_ex_drop_mono[OF j] ex p by simp
      ultimately show ?thesis unfolding T_def using matches_tail[of j s cap] by simp
    qed
    then have "concat (map (\<lambda>j. matches T s j cap) (rev [i ..< Suc (i + n)])) = []"
      by (simp del: upt_Suc)
    then show "matches (Seq (Star Space) (Seq (Opt (Group 1 (Star Dot))) (Seq LineEnd Empty))) s i cap = []"
      using m unfolding T_def by simp
  }
  {
    assume nex: "\<not> list_ex is_line_terminator p"
    have "rev [i ..< Suc (i + n)] = (i + n) # rev [i ..< i + n]" by simp
    then have "matches (Seq (Star Space) T) s i cap =
        matches T s (i + n) cap @ concat (map (\<lambda>j. matches T s j cap) (rev [i ..< i + n]))"
      unfolding m by simp
    moreover have "matches T s (i + n) cap = [(length s, if p = [] then cap else cap(1 \<mapsto> p))]"
      using nex matches_tail[OF nle, of cap] unfolding T_def p by simp
    ultimately show "\<exists>rest. matches (Seq (Star Space) (Seq (Opt (Group 1 (Star Dot))) (Seq LineEnd Empty))) s i cap
              = (length s, if p = [] then cap else cap(1 \<mapsto> p)) # rest"
      unfolding T_def by simp
  }
qed

lemma chars_map: "chars cs = map Chr (ascii cs)"
  by (simp add: chars_def ascii_def)

lemma length_ascii: "length (ascii cs) = length cs"
  by (simp add: ascii_def)

lemma starts_with_length: "starts_with cs s \<Longrightarrow> length cs \<le> length s"
  unfolding starts_with_def by (metis length_take min.cobounded1)

lemma matches_anchored:
  "matches (seq ([LineStart] @ chars cs @ rs)) s i cap =
     (if i = 0 \<and> starts_with (ascii cs) s then matches (seq rs) s (length cs) cap else [])"
proof -
  have e: "seq ([LineStart] @ chars cs @ rs) = Seq LineStart (foldr Seq (map Chr (ascii cs)) (seq rs))"
    by (simp add: seq_def chars_map)
  have "matches (Seq LineStart (foldr Seq (map Chr (ascii cs)) (seq rs))) s i cap =
      (if i = 0 then matches (foldr Seq (map Chr (ascii cs)) (seq rs)) s 0 cap else [])"
    by (simp add: matches_basic)
  then show ?thesis
    unfolding e using matches_chars[of "ascii cs" "seq rs" s 0 cap]
    by (simp add: starts_with_def length_ascii)
qed

lemma regexp_exec_later:
  assumes "\<And>i. 0 < i \<Longrightarrow> matches r s i (\<lambda>n. None) = []"
  shows "0 < i \<Longrightarrow> regexp_exec r s i = None"
proof (induction "Suc (length s) - i" arbitrary: i)
  case 0
  then show ?case by (simp add: regexp_exec.simps[of r s i])
next
  case (Suc k)
  then have "regexp_exec r s (Suc i) = None" by simp
  then show ?case using assms[OF Suc(3)] by (simp add: regexp_exec.simps[of r s i])
qed

lemma regexp_exec_anchored:
  assumes "\<And>i. 0 < i \<Longrightarrow> matches r s i (\<lambda>n. None) = []"
  shows "regexp_exec r s 0 =
           (case matches r s 0 (\<lambda>n. None) of [] \<Rightarrow> None | (j, c) # rest \<Rightarrow> Some (0, j, c))"
  using regexp_exec_later[OF assms, of "Suc 0"]
  by (simp add: regexp_exec.simps[of r s 0] split: list.splits)

lemma js_match_param:
  fixes cs :: string and s :: js_string
  defines "rx \<equiv> seq ([LineStart] @ chars cs @ [Star Space, Opt (Group 1 (Star Dot)), LineEnd])"
  defines "p \<equiv> dropWhile is_space (drop (length cs) s)"
  shows "map_option (\<lambda>m. m 1) (js_match rx s) =
           (if starts_with (ascii cs) s \<and> \<not> list_ex is_line_terminator p
            then Some (if p = [] then None else Some p) else None)"
proof -
  define W where "W = Seq (Star Space) (Seq (Opt (Group 1 (Star Dot))) (Seq LineEnd Empty))"
  have W: "seq [Star Space, Opt (Group 1 (Star Dot)), LineEnd] = W"
    by (simp add: seq_def W_def)
  have m: "matches rx s i cap =
     (if i = 0 \<and> starts_with (ascii cs) s then matches W s (length cs) cap else [])" for i cap
    unfolding rx_def matches_anchored W ..
  have later: "\<And>i. 0 < i \<Longrightarrow> matches rx s i (\<lambda>n. None) = []" by (simp add: m)
  have ex: "regexp_exec rx s 0 =
           (case matches rx s 0 (\<lambda>n. None) of [] \<Rightarrow> None | (j, c) # rest \<Rightarrow> Some (0, j, c))"
    by (rule regexp_exec_anchored[OF later])
  show ?thesis
  proof (cases "starts_with (ascii cs) s")
    case False
    then show ?thesis by (simp add: js_match_def ex m)
  next
    case True
    then have le: "length cs \<le> length s" using starts_with_length[of "ascii cs" s] by (simp add: length_ascii)
    have m0: "matches rx s 0 (\<lambda>n. None) = matches W s (length cs) (\<lambda>n. None)"
      using True by (simp add: m)
    show ?thesis
    proof (cases "list_ex is_line_terminator p")
      case ex_lt: True
      then have "matches W s (length cs) (\<lambda>n. None) = []"
        unfolding W_def p_def using matches_space_tail(1)[OF le] by blast
      then show ?thesis using ex_lt by (simp add: js_match_def ex m0)
    next
      case no_lt: False
      then obtain rest where "matches W s (length cs) (\<lambda>n. None) =
          (length s, if p = [] then (\<lambda>n. None) else (\<lambda>n. None)(1 \<mapsto> p)) # rest"
        unfolding W_def p_def using matches_space_tail(2)[OF le] by blast
      then show ?thesis using no_lt True by (simp add: js_match_def ex m0)
    qed
  qed
qed

lemma js_match_status:
  "map_option (\<lambda>m. m 1) (js_match (seq ([LineStart] @ chars ''/status'' @ [LineEnd])) s) =
     (if s = ascii ''/status'' then Some None else None)"
proof -
  define rx where "rx = seq ([LineStart] @ chars ''/status'' @ [LineEnd])"
  have m: "matches rx s i cap =
     (if i = 0 \<and> starts_with (ascii ''/status'') s \<and> length s = 7 then [(7, cap)] else [])" for i cap
    unfolding rx_def matches_anchored by (auto simp: seq_def matches_basic)
  have later: "\<And>i. 0 < i \<Longrightarrow> matches rx s i (\<lambda>n. None) = []" by (simp add: m)
  have ex: "regexp_exec rx s 0 =
           (case matches rx s 0 (\<lambda>n. None) of [] \<Rightarrow> None | (j, c) # rest \<Rightarrow> Some (0, j, c))"
    by (rule regexp_exec_anchored[OF later])
  have "starts_with (ascii ''/status'') s \<and> length s = 7 \<longleftrightarrow> s = ascii ''/status''"
    by (auto simp: starts_with_def ascii_def)
  then show ?thesis unfolding rx_def[symmetric] by (simp add: js_match_def ex m)
qed

lemma first_command_step:
  "first_command ((name, rx) # cmds) body =
     (case map_option (\<lambda>m. m 1) (js_match rx body) of
        Some g \<Rightarrow> Some (name, map_option trim g)
      | None \<Rightarrow> first_command cmds body)"
  by (simp split: option.splits)

lemma starts_with_take:
  "starts_with cs s \<Longrightarrow> n \<le> length cs \<Longrightarrow> take n s = take n cs"
  unfolding starts_with_def by (metis min.absorb1 take_take)

lemma checkin_exclusive:
  assumes "starts_with (ascii ''/checkin'') body"
  shows "\<not> starts_with (ascii ''/checkout'') body" "body \<noteq> ascii ''/status''"
    "\<not> starts_with (ascii ''/vacation'') body"
proof -
  have t: "take 2 body = take 2 (ascii ''/checkin'')" "take 7 body = take 7 (ascii ''/checkin'')"
    using starts_with_take[OF assms] by (simp_all add: ascii_def)
  show "\<not> starts_with (ascii ''/checkout'') body"
    using t(2) starts_with_take[of "ascii ''/checkout''" body 7] by (auto simp: ascii_def)
  show "body \<noteq> ascii ''/status''" using t(1) by (auto simp: ascii_def)
  show "\<not> starts_with (ascii ''/vacation'') body"
    using t(1) starts_with_take[of "ascii ''/vacation''" body 2] by (auto simp: ascii_def)
qed

lemma checkout_exclusive:
  assumes "starts_with (ascii ''/checkout'') body"
  shows "body \<noteq> ascii ''/status''" "\<not> starts_with (ascii ''/vacation'') body"
proof -
  have t: "take 2 body = take 2 (ascii ''/checkout'')"
    using starts_with_take[OF assms] by (simp_all add: ascii_def)
  show "body \<noteq> ascii ''/status''" using t by (auto simp: ascii_def)
  show "\<not> starts_with (ascii ''/vacation'') body"
    using t starts_with_take[of "ascii ''/vacation''" body 2] by (auto simp: ascii_def)
qed

lemma param_case:
  "(case (if A \<and> \<not> list_ex is_line_terminator (dropWhile is_space rest)
          then Some (if dropWhile is_space rest = [] then None else Some (dropWhile is_space rest))
          else None) of
      Some g \<Rightarrow> Some (name, map_option trim g)
    | None \<Rightarrow> other)
   = (if A then (case command_with_param name rest of None \<Rightarrow> other | Some r \<Rightarrow> Some r) else other)"
  by (simp add: command_with_param_def Let_def)

text \<open>
  The parser is the function written without regular expressions, for every body.
\<close>

lemma parseCommand_direct_eq: "parseCommand body = parseCommand_direct body"
proof -
  have len: "length ''/checkin'' = 8" "length ''/checkout'' = 9" "length ''/vacation'' = 9" by simp_all
  have "parseCommand body =
     (if starts_with (ascii ''/checkin'') body
      then (case command_with_param ''checkin'' (drop 8 body) of Some r \<Rightarrow> Some r | None \<Rightarrow>
              (if starts_with (ascii ''/checkout'') body
               then (case command_with_param ''checkout'' (drop 9 body) of Some r \<Rightarrow> Some r | None \<Rightarrow>
                  (if body = ascii ''/status'' then Some (''status'', None)
                   else if starts_with (ascii ''/vacation'') body
                        then command_with_param ''vacation'' (drop 9 body) else None))
               else (if body = ascii ''/status'' then Some (''status'', None)
                   else if starts_with (ascii ''/vacation'') body
                        then command_with_param ''vacation'' (drop 9 body) else None)))
      else (if starts_with (ascii ''/checkout'') body
               then (case command_with_param ''checkout'' (drop 9 body) of Some r \<Rightarrow> Some r | None \<Rightarrow>
                  (if body = ascii ''/status'' then Some (''status'', None)
                   else if starts_with (ascii ''/vacation'') body
                        then command_with_param ''vacation'' (drop 9 body) else None))
               else (if body = ascii ''/status'' then Some (''status'', None)
                   else if starts_with (ascii ''/vacation'') body
                        then command_with_param ''vacation'' (drop 9 body) else None)))"
    unfolding parseCommand_def commands_def first_command_step js_match_param js_match_status
      len param_case first_command.simps
    by (simp split: option.splits)
  then show ?thesis
    unfolding parseCommand_direct_def
    using checkin_exclusive[of body] checkout_exclusive[of body]
    by (auto split: option.splits)
qed

lemma trim_dropWhile: "trim (dropWhile is_space s) = trim s"
  by (simp add: trim_def)

lemma trim_empty_iff: "trim s = [] \<longleftrightarrow> dropWhile is_space s = []"
proof
  assume e: "dropWhile is_space s = []"
  show "trim s = []" unfolding trim_def e by simp
next
  assume t: "trim s = []"
  show "dropWhile is_space s = []"
  proof (rule ccontr)
    assume ne: "dropWhile is_space s \<noteq> []"
    then have "\<not> is_space (hd (dropWhile is_space s))" by (rule hd_dropWhile)
    moreover have "hd (dropWhile is_space s) \<in> set (rev (dropWhile is_space s))"
      using ne by simp
    ultimately have "dropWhile is_space (rev (dropWhile is_space s)) \<noteq> []"
      by (auto simp: dropWhile_eq_Nil_conv)
    then show False using t by (simp add: trim_def)
  qed
qed

lemma command_with_param_one_line:
  assumes "one_line rest"
  shows "command_with_param name rest = Some (name, param_of rest)"
proof -
  have "set (dropWhile is_space rest) \<subseteq> set rest" by (rule set_dropWhileD[THEN subsetI])
  then have "\<not> list_ex is_line_terminator (dropWhile is_space rest)"
    using assms by (auto simp: one_line_def list_ex_iff)
  then show ?thesis
    by (simp add: command_with_param_def Let_def param_of_def trim_dropWhile trim_empty_iff)
qed

lemma starts_with_append: "starts_with cs (cs @ rest)"
  by (simp add: starts_with_def)

lemma starts_with_other:
  assumes "length cs \<le> length ds" "take (length cs) ds \<noteq> cs"
  shows "\<not> starts_with cs (ds @ rest)"
  using assms by (simp add: starts_with_def)

lemma tokens_differ:
  "\<not> starts_with (ascii ''/checkin'') (ascii ''/checkout'' @ rest)"
  "\<not> starts_with (ascii ''/checkin'') (ascii ''/vacation'' @ rest)"
  "\<not> starts_with (ascii ''/checkout'') (ascii ''/vacation'' @ rest)"
  "\<not> starts_with (ascii ''/checkin'') (ascii ''/status'' @ rest)"
  "\<not> starts_with (ascii ''/checkout'') (ascii ''/status'' @ rest)"
  "\<not> starts_with (ascii ''/vacation'') (ascii ''/status'' @ rest)"
  "ascii ''/vacation'' @ rest \<noteq> ascii ''/status''"
  by (simp_all add: starts_with_def ascii_def)

text \<open>
  Claim C5, as amended.  The parser recognizes exactly the names checkin, checkout,
  status and vacation, each written with a leading slash at the start of the body.
  After \<^verbatim>\<open>/checkin\<close>, \<^verbatim>\<open>/checkout\<close> and \<^verbatim>\<open>/vacation\<close> a text on one line that is
  empty or starts with white space is the parameter: it is trimmed, and absent when
  nothing is left.  \<^verbatim>\<open>/status\<close> takes no parameter: it is the status command with
  no parameter when it is the whole body, and no command when a text on one line
  follows.  A body that starts with none of the four gives no command.
\<close>

theorem parseCommand_commands:
  "(\<forall>name p. parseCommand body = Some (name, p) \<longrightarrow>
        (name = ''checkin'' \<and> starts_with (ascii ''/checkin'') body)
      \<or> (name = ''checkout'' \<and> starts_with (ascii ''/checkout'') body)
      \<or> (name = ''status'' \<and> starts_with (ascii ''/status'') body \<and> p = None)
      \<or> (name = ''vacation'' \<and> starts_with (ascii ''/vacation'') body))
   \<and> (one_line rest \<and> separated rest \<longrightarrow>
        parseCommand (ascii ''/checkin'' @ rest) = Some (''checkin'', param_of rest)
      \<and> parseCommand (ascii ''/checkout'' @ rest) = Some (''checkout'', param_of rest)
      \<and> parseCommand (ascii ''/vacation'' @ rest) = Some (''vacation'', param_of rest))
   \<and> parseCommand (ascii ''/status'') = Some (''status'', None)
   \<and> (one_line rest \<and> rest \<noteq> [] \<longrightarrow> parseCommand (ascii ''/status'' @ rest) = None)
   \<and> (\<not> starts_with (ascii ''/checkin'') body \<and> \<not> starts_with (ascii ''/checkout'') body
        \<and> \<not> starts_with (ascii ''/status'') body \<and> \<not> starts_with (ascii ''/vacation'') body
        \<longrightarrow> parseCommand body = None)"
proof (intro conjI allI impI; (elim conjE)?)
  fix name p assume "parseCommand body = Some (name, p)"
  then show "(name = ''checkin'' \<and> starts_with (ascii ''/checkin'') body)
      \<or> (name = ''checkout'' \<and> starts_with (ascii ''/checkout'') body)
      \<or> (name = ''status'' \<and> starts_with (ascii ''/status'') body \<and> p = None)
      \<or> (name = ''vacation'' \<and> starts_with (ascii ''/vacation'') body)"
    unfolding parseCommand_direct_eq parseCommand_direct_def
    by (auto simp: command_with_param_def Let_def starts_with_def split: if_splits)
next
  assume r: "one_line rest"
  show "parseCommand (ascii ''/checkin'' @ rest) = Some (''checkin'', param_of rest)"
    unfolding parseCommand_direct_eq parseCommand_direct_def
    using command_with_param_one_line[OF r] starts_with_append[of "ascii ''/checkin''" rest]
    by (simp add: length_ascii)
  show "parseCommand (ascii ''/checkout'' @ rest) = Some (''checkout'', param_of rest)"
    unfolding parseCommand_direct_eq parseCommand_direct_def
    using command_with_param_one_line[OF r] starts_with_append[of "ascii ''/checkout''" rest]
      tokens_differ(1)[of rest]
    by (simp add: length_ascii)
  show "parseCommand (ascii ''/vacation'' @ rest) = Some (''vacation'', param_of rest)"
    unfolding parseCommand_direct_eq parseCommand_direct_def
    using command_with_param_one_line[OF r] starts_with_append[of "ascii ''/vacation''" rest]
      tokens_differ(2,3,7)[of rest]
    by (simp add: length_ascii)
next
  show "parseCommand (ascii ''/status'') = Some (''status'', None)"
    unfolding parseCommand_direct_eq parseCommand_direct_def
    using tokens_differ(4,5)[of "[]"] by simp
next
  assume "rest \<noteq> []"
  then show "parseCommand (ascii ''/status'' @ rest) = None"
    unfolding parseCommand_direct_eq parseCommand_direct_def
    using tokens_differ(4,5,6)[of rest] by simp
next
  assume "\<not> starts_with (ascii ''/checkin'') body" "\<not> starts_with (ascii ''/checkout'') body"
    "\<not> starts_with (ascii ''/status'') body" "\<not> starts_with (ascii ''/vacation'') body"
  moreover have "body = ascii ''/status'' \<Longrightarrow> starts_with (ascii ''/status'') body"
    by (simp add: starts_with_def)
  ultimately show "parseCommand body = None"
    unfolding parseCommand_direct_eq parseCommand_direct_def by auto
qed

text \<open>
  C5 at the inputs of the specification, and at a command followed by white space only.
\<close>

theorem parseCommand_commands_witness:
  "one_line (ascii '' working from home'') \<and> separated (ascii '' working from home'')
   \<and> parseCommand (ascii ''/checkin working from home'') = Some (''checkin'', Some (ascii ''working from home''))
   \<and> parseCommand (ascii ''/status'') = Some (''status'', None)
   \<and> parseCommand (ascii ''hello'') = None
   \<and> one_line (ascii ''   '') \<and> separated (ascii ''   '')
   \<and> parseCommand (ascii ''/vacation   '') = Some (''vacation'', None)
   \<and> one_line (ascii '' now'')
   \<and> parseCommand (ascii ''/status now'') = None"
  using parseCommand_commands[of "ascii ''hello''" "ascii '' working from home''"]
        parseCommand_commands[of "ascii ''hello''" "ascii ''   ''"]
        parseCommand_commands[of "ascii ''hello''" "ascii '' now''"]
  by (simp add: one_line_def separated_def param_of_def starts_with_def ascii_def trim_def
        is_space_def is_white_space_def is_line_terminator_def)

text \<open>
  Claim C5 as stated fails: \<^verbatim>\<open>/status\<close> followed by a parameter is no command; and
  a check-in whose parameter is followed by a line feed is no command, although the
  line feed is white space that trimming removes.
\<close>

theorem status_takes_no_parameter:
  "parseCommand (ascii ''/status now'') = None
   \<and> parseCommand (ascii ''/status now'') \<noteq> Some (''status'', Some (ascii ''now''))
   \<and> trim (ascii ''foo'' @ [0x0A]) = ascii ''foo''
   \<and> parseCommand (ascii ''/checkin foo'' @ [0x0A]) = None"
  by code_simp

section \<open>The claims about the engine and the adapters at concrete inputs\<close>

lemma demo_sessions: "workingSessions demo_db = [w_open]" "workingSessions empty_db = []"
  by (simp_all add: demo_db_def empty_db_def)

lemma storable_examples:
  "storable_note None" "storable_note (Some (ascii ''office''))" "storable_note (Some (ascii ''again''))"
  "\<not> storable_note (Some nul_note)"
  by (simp_all add: storable_note_def storable_text_def ascii_def nul_note_def
        is_high_surrogate_def is_low_surrogate_def)

lemma demo_accepts:
  "accepts_session ''U'' ''O'' n empty_db \<longleftrightarrow> storable_note n"
  "accepts_session ''U'' ''O'' n demo_db \<longleftrightarrow> storable_note n"
  "accepts_session ''U'' ''P'' n demo_db \<longleftrightarrow> storable_note n"
  "\<not> accepts_session ''X'' ''O'' n empty_db"
  by (simp_all add: accepts_session_def demo_db_def empty_db_def ann_def org_O_def org_P_def org_Q_def)

lemma demo_inv:
  "open_inv (workingSessions demo_db)" "unique_ids (workingSessions demo_db)"
  "open_inv (workingSessions empty_db)" "unique_ids (workingSessions empty_db)"
  by (simp_all add: demo_sessions open_inv_def unique_ids_def w_open_def is_open_def)

lemma demo_open: "w_open \<in> set (workingSessions demo_db)" "is_open ''U'' ''O'' w_open"
  "getActiveSession ''U'' ''O'' (workingSessions demo_db) = Some w_open"
  "getActiveSession ''U'' ''O'' (workingSessions empty_db) = None"
  "getActiveSession ''U'' ''P'' (workingSessions demo_db) = None"
  by (simp_all add: demo_sessions is_open_def w_open_def getActiveSession_def ws_findFirst_def)

text \<open>
  C1 at a concrete run: two check-ins for the same pair (the second is
  refused), a check-out, and a check-in for another organization.
\<close>

theorem open_inv_run_witness:
  "open_inv (workingSessions empty_db) \<and>
   open_inv (workingSessions
     (run [Checkin ''U'' ''O'' None 1, Checkin ''U'' ''O'' None 2,
           Checkout ''U'' ''O'' None 3, Checkin ''U'' ''P'' None 4] empty_db))"
  using demo_inv(3)
    open_inv_run[OF demo_inv(3), of "[Checkin ''U'' ''O'' None 1, Checkin ''U'' ''O'' None 2,
           Checkout ''U'' ''O'' None 3, Checkin ''U'' ''P'' None 4]"]
  by simp

text \<open>
  C2 at concrete inputs: a check-in while a session is open, one on the database with
  no session, and one with a note the database cannot store.
\<close>

theorem checkin_spec_witness:
  "checkin ''U'' ''O'' None 5 demo_db = (Inl AlreadyCheckedIn, demo_db)
   \<and> (\<exists>new. checkin ''U'' ''O'' (Some (ascii ''office'')) 32400000 empty_db
               = (Inr new, empty_db\<lparr> workingSessions := [new] \<rparr>)
         \<and> checkoutAt new = None \<and> checkinAt new = 32400000
         \<and> note_col new = Some (ascii ''office'')
         \<and> getActiveSession ''U'' ''O'' [new] = Some new)
   \<and> checkin ''U'' ''O'' (Some nul_note) 5 empty_db = (Inl DatabaseError, empty_db)"
  using checkin_spec[of demo_db "''U''" "''O''" None 5]
        checkin_spec[of empty_db "''U''" "''O''" "Some (ascii ''office'')" 32400000]
        checkin_spec[of empty_db "''U''" "''O''" "Some nul_note" 5]
  by (simp add: demo_sessions demo_accepts storable_examples w_open_def) blast

text \<open>
  Claim C2 as stated fails: with no session open, a check-in whose note holds the code
  unit 0, which the Chatwork parser lets through, or whose user does not exist, throws
  the error of the database and creates nothing.
\<close>

theorem checkin_rejected_by_database:
  "getActiveSession ''U'' ''O'' (workingSessions empty_db) = None
   \<and> parseCommand (ascii ''/checkin '' @ nul_note) = Some (''checkin'', Some nul_note)
   \<and> checkin ''U'' ''O'' (Some nul_note) 5 empty_db = (Inl DatabaseError, empty_db)
   \<and> getActiveSession ''X'' ''O'' (workingSessions empty_db) = None
   \<and> checkin ''X'' ''O'' None 5 empty_db = (Inl DatabaseError, empty_db)"
proof -
  have p: "parseCommand (ascii ''/checkin '' @ nul_note) = Some (''checkin'', Some nul_note)"
    unfolding nul_note_def by code_simp
  have g: "getActiveSession u ''O'' (workingSessions empty_db) = None" for u
    by (simp add: demo_sessions getActiveSession_def ws_findFirst_def)
  show ?thesis
    using p g by (simp add: checkin_cases demo_accepts storable_examples)
qed

text \<open>
  C3 at the scenario of the specification: checked in at 09:00 with a note, checked out
  at 17:30 with none; a check-out with a note the database cannot store; and a
  check-out with no session open.
\<close>

theorem checkout_spec_witness:
  "open_inv (workingSessions demo_db) \<and> unique_ids (workingSessions demo_db)
   \<and> w_open \<in> set (workingSessions demo_db) \<and> is_open ''U'' ''O'' w_open
   \<and> checkout ''U'' ''O'' None 63000000 demo_db =
       (Inr (w_open\<lparr>checkoutAt := Some 63000000\<rparr>),
        demo_db\<lparr> workingSessions := [w_open\<lparr>checkoutAt := Some 63000000\<rparr>] \<rparr>)
   \<and> getActiveSession ''U'' ''O'' (workingSessions (snd (checkout ''U'' ''O'' None 63000000 demo_db))) = None
   \<and> fst (checkout ''U'' ''O'' None 64000000 (snd (checkout ''U'' ''O'' None 63000000 demo_db)))
       = Inl NotCheckedIn
   \<and> checkout ''U'' ''O'' (Some nul_note) 63000000 demo_db = (Inl DatabaseError, demo_db)
   \<and> checkout ''U'' ''O'' None 5 empty_db = (Inl NotCheckedIn, empty_db)"
  using demo_inv demo_open(1,2) storable_examples
    checkout_spec[OF demo_inv(1,2), of "''U''" "''O''" None 63000000 None 64000000]
    checkout_spec[OF demo_inv(1,2), of "''U''" "''O''" "Some nul_note" 63000000 None 0]
    checkout_spec[OF demo_inv(3,4), of "''U''" "''O''" None 5 None 0]
  by (auto simp: close_session_def demo_sessions)

text \<open>
  Claim C3 as stated fails: the end is the clock reading, which the code does not
  compare with the start, so a check-out at a reading before the start stores an end
  before the start; and with a session open, a check-out whose note the database
  cannot store throws the error of the database and leaves the session open.
\<close>

theorem checkout_end_before_start:
  "getActiveSession ''U'' ''O'' (workingSessions demo_db) = Some w_open
   \<and> checkinAt w_open = 32400000
   \<and> fst (checkout ''U'' ''O'' None 5 demo_db) = Inr (w_open\<lparr>checkoutAt := Some 5\<rparr>)
   \<and> checkoutAt (w_open\<lparr>checkoutAt := Some 5\<rparr>) = Some 5
   \<and> 5 < checkinAt (w_open\<lparr>checkoutAt := Some 5\<rparr>)
   \<and> checkout ''U'' ''O'' (Some nul_note) 63000000 demo_db = (Inl DatabaseError, demo_db)"
proof -
  have a: "checkout ''U'' ''O'' None 5 demo_db =
      (Inr (w_open\<lparr>checkoutAt := Some 5\<rparr>), demo_db\<lparr> workingSessions := [w_open\<lparr>checkoutAt := Some 5\<rparr>] \<rparr>)"
    using demo_open(3) storable_examples(1)
    by (simp add: checkout_cases storable_truthy demo_sessions note_or_def)
  have b: "checkout ''U'' ''O'' (Some nul_note) 63000000 demo_db = (Inl DatabaseError, demo_db)"
    using demo_open(3) storable_examples(4) by (simp add: checkout_cases storable_truthy)
  show ?thesis using a b demo_open(3) by (simp add: w_open_def)
qed

text \<open>
  C9 at a concrete input: the note of the 09:00 session survives a check-out with \<open>""\<close>.
\<close>

theorem checkout_empty_note_witness:
  "getActiveSession ''U'' ''O'' (workingSessions demo_db) = Some w_open
   \<and> (\<exists>closed. fst (checkout ''U'' ''O'' (Some []) 63000000 demo_db) = Inr closed
         \<and> note_col closed = Some (ascii ''office''))"
  using demo_open(3) checkout_empty_note[OF demo_open(3), of 63000000]
  by (auto simp: w_open_def)

text \<open>
  C10 at concrete inputs: a refused check-in, a refused check-out, and a check-in the
  database rejects.
\<close>

theorem failure_atomic_witness:
  "fst (checkin ''U'' ''O'' None 5 demo_db) = Inl AlreadyCheckedIn
   \<and> snd (checkin ''U'' ''O'' None 5 demo_db) = demo_db
   \<and> fst (checkout ''U'' ''P'' None 5 demo_db) = Inl NotCheckedIn
   \<and> snd (checkout ''U'' ''P'' None 5 demo_db) = demo_db
   \<and> fst (checkin ''U'' ''P'' (Some nul_note) 5 demo_db) = Inl DatabaseError
   \<and> snd (checkin ''U'' ''P'' (Some nul_note) 5 demo_db) = demo_db"
proof -
  have c: "fst (checkin ''U'' ''P'' (Some nul_note) 5 demo_db) = Inl DatabaseError"
    using demo_open(5) by (simp add: checkin_cases demo_accepts storable_examples)
  show ?thesis
    using c demo_open(3,5)
      failure_atomic[of "''U''" "''O''" None 5 demo_db]
      failure_atomic[of "''U''" "''P''" None 5 demo_db]
      failure_atomic[of "''U''" "''P''" "Some nul_note" 5 demo_db]
    by simp
qed

text \<open>
  C8 at a concrete table: both endpoints are included, a later start and another user's
  session are left out, and the result is sorted.
\<close>

theorem sessionsInRange_spec_witness:
  "getSessionsByDateRange ''U'' ''O'' 10 20
      [w_open\<lparr>checkinAt := 20\<rparr>, w_open\<lparr>checkinAt := 21\<rparr>, w_open\<lparr>checkinAt := 10\<rparr>,
       w_open\<lparr>checkinAt := 15, userId := ''V''\<rparr>]
     = [w_open\<lparr>checkinAt := 10\<rparr>, w_open\<lparr>checkinAt := 20\<rparr>]
   \<and> sorted (map checkinAt (getSessionsByDateRange ''U'' ''O'' 10 20
      [w_open\<lparr>checkinAt := 20\<rparr>, w_open\<lparr>checkinAt := 21\<rparr>, w_open\<lparr>checkinAt := 10\<rparr>,
       w_open\<lparr>checkinAt := 15, userId := ''V''\<rparr>]))"
  using sessionsInRange_spec[of "''U''" "''O''" 10 20
      "[w_open\<lparr>checkinAt := 20\<rparr>, w_open\<lparr>checkinAt := 21\<rparr>, w_open\<lparr>checkinAt := 10\<rparr>,
       w_open\<lparr>checkinAt := 15, userId := ''V''\<rparr>]"]
  by (simp add: getSessionsByDateRange_def ws_findMany_def w_open_def)

lemma demo_orgs: "getUserOrganizations ''U'' demo_db = [org_O, org_P]"
  "getUserOrganizations ''U'' empty_db = [org_O, org_P]"
  by (simp_all add: getUserOrganizations_def demo_db_def empty_db_def List.map_filter_simps
        org_O_def org_P_def org_Q_def)

lemma demo_slack_user: "findBySlackUserId ''S1'' demo_db = Some ann"
  by (simp add: findBySlackUserId_def demo_db_def ann_def)

lemma demo_chatwork_user: "findByChatworkUserId ''C1'' demo_db = Some ann"
  "findByChatworkUserId ''C1'' empty_db = Some ann"
  by (simp_all add: findByChatworkUserId_def demo_db_def empty_db_def ann_def)

lemma demo_checkin_fails:
  "checkin ''U'' ''O'' n now demo_db = (Inl AlreadyCheckedIn, demo_db)"
  using demo_open(3) by (simp add: checkin_cases)

lemma demo_checkout_fails:
  "checkout ''U'' ''O'' n now empty_db = (Inl NotCheckedIn, empty_db)"
  using demo_open(4) by (simp add: checkout_cases)

text \<open>
  C6 at the example database: the user has a former membership and two ACTIVE ones; a
  Slack check-in is refused because the user is checked in at the first organization,
  and the status and check-out handlers work on that organization.
\<close>

theorem first_organization_witness:
  "getUserOrganizations (u_id ann) demo_db = org_O # [org_P]
   \<and> findBySlackUserId (user_id (slash '''')) demo_db = Some ann
   \<and> findByChatworkUserId ''C1'' demo_db = Some ann
   \<and> setupCheckinHandler (slash '''') 63000000 demo_db = ([Ack, Respond (ErrorReply AlreadyCheckedIn)], demo_db)
   \<and> setupStatusHandler (slash '''') demo_db
        = ([Ack, Respond (Roster [(''Ann'', 32400000, Some (ascii ''office''))])], demo_db)
   \<and> handleStatusCommand ''C1'' demo_db = (Roster [(''Ann'', 32400000, Some (ascii ''office''))], demo_db)
   \<and> fst (handleCheckoutCommand ''C1'' None 63000000 demo_db) = CheckoutDone ''Ann'' None (Some (17 / 2))"
proof -
  have o: "getUserOrganizations (u_id ann) demo_db = org_O # [org_P]"
    using demo_orgs(1) by (simp add: ann_def)
  have s: "findBySlackUserId (user_id (slash '''')) demo_db = Some ann"
    using demo_slack_user by (simp add: slash_def)
  have st: "status_reply ''O'' demo_db = Roster [(''Ann'', 32400000, Some (ascii ''office''))]"
    by (simp add: status_reply_def roster_def getAllActiveSessions_def ws_findMany_def demo_db_def
          w_open_def List.map_filter_simps ann_def truthy_def ascii_def)
  have co: "checkout ''U'' ''O'' None 63000000 demo_db =
       (Inr (w_open\<lparr>checkoutAt := Some 63000000\<rparr>),
        demo_db\<lparr> workingSessions := [w_open\<lparr>checkoutAt := Some 63000000\<rparr>] \<rparr>)"
    using demo_open(3) storable_examples(1)
    by (simp add: checkout_cases storable_truthy demo_sessions note_or_def)
  have h: "hours_of (w_open\<lparr>checkoutAt := Some 63000000\<rparr>) = Some (17 / 2)"
    by (simp add: hours_of_def w_open_def)
  show ?thesis
    using o s demo_chatwork_user(1)
      first_organization[OF o, of "slash ''''" 63000000 "''C1''" None]
    by (simp add: ann_def org_O_def st demo_checkin_fails co h truthy_def slash_def)
qed

text \<open>
  C7 at the example database: a second check-in from Slack and from Chatwork, and a
  Chatwork check-out with no session open.
\<close>

theorem engine_errors_caught_witness:
  "findBySlackUserId (user_id (slash ''again'')) demo_db = Some ann
   \<and> getUserOrganizations (u_id ann) demo_db = org_O # [org_P]
   \<and> fst (checkin (u_id ann) (o_id org_O) (slack_note (slash ''again'')) 5 demo_db)
        = Inl AlreadyCheckedIn
   \<and> setupCheckinHandler (slash ''again'') 5 demo_db
        = ([Ack, Respond (ErrorReply AlreadyCheckedIn)], demo_db)
   \<and> parseCommand (message_body (webhook ''/checkin again'')) = Some (''checkin'', Some (ascii ''again''))
   \<and> handleWebhook ''secret'' (webhook ''/checkin again'') 5 demo_db
        = \<lparr> response = Success, sent = [(''R'', ErrorReply AlreadyCheckedIn)], db_after = demo_db \<rparr>
   \<and> parseCommand (message_body (webhook ''/checkout'')) = Some (''checkout'', None)
   \<and> handleWebhook ''secret'' (webhook ''/checkout'') 5 empty_db
        = \<lparr> response = Success, sent = [(''R'', ErrorReply NotCheckedIn)], db_after = empty_db \<rparr>"
proof -
  have o: "getUserOrganizations (u_id ann) demo_db = org_O # [org_P]"
    using demo_orgs(1) by (simp add: ann_def)
  have o': "getUserOrganizations (u_id ann) empty_db = org_O # [org_P]"
    using demo_orgs(2) by (simp add: ann_def)
  have s: "findBySlackUserId (user_id (slash ''again'')) demo_db = Some ann"
    using demo_slack_user by (simp add: slash_def)
  have c: "findByChatworkUserId (account_id (webhook t)) demo_db = Some ann" for t
    using demo_chatwork_user(1) by (simp add: webhook_def)
  have c': "findByChatworkUserId (account_id (webhook t)) empty_db = Some ann" for t
    using demo_chatwork_user(2) by (simp add: webhook_def)
  have p1: "parseCommand (message_body (webhook ''/checkin again'')) = Some (''checkin'', Some (ascii ''again''))"
    unfolding webhook_def by simp code_simp
  have p2: "parseCommand (message_body (webhook ''/checkout'')) = Some (''checkout'', None)"
    unfolding webhook_def by simp code_simp
  have f1: "fst (checkin (u_id ann) (o_id org_O) n 5 demo_db) = Inl AlreadyCheckedIn" for n
    using demo_checkin_fails[of n 5] by (simp add: ann_def org_O_def)
  have f2: "fst (checkout (u_id ann) (o_id org_O) None 5 empty_db) = Inl NotCheckedIn"
    using demo_checkout_fails[of None 5] by (simp add: ann_def org_O_def)
  have t: "token_header (webhook t) = Some ''secret''" "webhook_event_type (webhook t) = ''message_created''"
      "room_id (webhook t) = ''R''" for t
    by (simp_all add: webhook_def)
  show ?thesis
    using s o f1 p1 p2
      engine_errors_caught[of "slash ''again''" demo_db ann org_O "[org_P]" 5 AlreadyCheckedIn
         "webhook ''/checkin again''" "''secret''" "Some (ascii ''again'')"]
      engine_errors_caught[of "slash ''again''" empty_db ann org_O "[org_P]" 5 NotCheckedIn
         "webhook ''/checkout''" "''secret''" None]
      o' c c' f2 t
    by simp
qed

end
